theory Spec2Isabelle
  imports Complex_Main "HOL-Library.Word"
begin

unbundle bit_operations_syntax

section \<open>Data model\<close>

text \<open>
  The pipeline of package \<open>worker\<close> (the second part of \<open>src/main.go\<close>): the producer
  \<open>CreateSpeechFromItems\<close>, and the remote worker \<open>processSpeechGeneration\<close>.
  A Go \<open>string\<close> is a byte sequence (\<open>string\<close>, one \<open>char\<close> per byte), a \<open>[]byte\<close> is
  a list of 8-bit words, a \<open>*time.Time\<close> is an optional instant (\<open>None\<close> for \<open>nil\<close>),
  an instant is a number of nanoseconds since the epoch, and a Go \<open>error\<close> value is an
  optional \<open>error\<close> (\<open>None\<close> for \<open>nil\<close>).
\<close>

type_synonym byte = "8 word"
type_synonym time = int

datatype error = Error string

datatype panic = NilPointerDereference | SliceBoundsOutOfRange

record gofeed_Item =
  Title :: string
  Content :: string
  Description :: string
  UpdatedParsed :: "time option"
  PublishedParsed :: "time option"

record gofeed_Feed =
  Feed_Title :: string
  Language :: string
  Items :: "gofeed_Item list"

record Config =
  MaxItemPerFeed :: int
  ItemSince :: real
  UseNaturalVoice :: bool
  SpeechSpeed :: real

record WorkerRequest =
  Item :: gofeed_Item
  Directory :: string
  LanguageCode :: string
  Request_UseNaturalVoice :: bool
  Request_SpeechSpeed :: real

definition SPEECH_SYNTHESIZE_RETRY_CNT :: nat where
  "SPEECH_SYNTHESIZE_RETRY_CNT = 5"

section \<open>The world the workers act on\<close>

text \<open>
  A file has its bytes, its permission bits, its two timestamps and the title tag that
  \<open>tool.WriteID3Tag\<close> embeds. The world holds the working directory, the umask, the
  files by absolute path, the faults of the filesystem (the error, if any, that a write
  or a change of times at a path meets), the synthesis backend (the answer to the
  \<open>k\<close>-th call of the run, for the request sent), the wall clock (the value of its
  \<open>k\<close>-th reading), and what the program has done so far: the number of backend calls,
  of clock readings, of seconds slept, the writes made by \<open>os.WriteFile\<close> and the log.
\<close>

datatype log_entry =
    LogFeedTitle string
  | LogAddingItem string
  | LogStartProcessing string
  | LogFileExists string
  | LogRetry "error option" nat
  | LogErrorEncountered error
  | LogErrWriting error
  | LogErr error
  | LogFinished string string

record os_file =
  content :: "byte list"
  mode :: "32 word"
  mtime :: time
  atime :: time
  title_tag :: "string option"

type_synonym response = "error + byte list"

record 'r world =
  cwd :: string
  umask :: "32 word"
  files :: "string \<rightharpoonup> os_file"
  write_error :: "string \<Rightarrow> error option"
  chtimes_error :: "string \<Rightarrow> error option"
  backend :: "nat \<Rightarrow> 'r \<Rightarrow> response"
  clock :: "nat \<Rightarrow> time"
  calls :: nat
  reads :: nat
  slept :: nat
  writes :: "(string \<times> byte list) list"
  log :: "log_entry list"

definition logf :: "log_entry \<Rightarrow> 'r world \<Rightarrow> 'r world" where
  "logf e w = w\<lparr>log := log w @ [e]\<rparr>"

definition time_Now :: "'r world \<Rightarrow> time \<times> 'r world" where
  "time_Now w = (clock w (reads w), w\<lparr>reads := Suc (reads w)\<rparr>)"

text \<open>
  \<open>zero_Time\<close> is the zero value of \<open>time.Time\<close>, the first instant of year 1 (UTC), for
  which \<open>IsZero\<close> holds. \<open>int64\<close> is what two's-complement arithmetic on 64 bits makes
  of a number; \<open>Time.UnixNano\<close> computes in it. A \<open>Duration\<close> is an \<open>int64\<close> count of
  nanoseconds: \<open>Time.Sub\<close> gives the difference of two instants when it is one, and the
  smallest or the largest \<open>Duration\<close> otherwise. \<open>time.Since(t)\<close> is \<open>time.Now().Sub(t)\<close>
  (a parsed time carries no monotonic reading).
\<close>

definition zero_Time :: time where
  "zero_Time = - 62135596800000000000"

definition int64 :: "int \<Rightarrow> int" where
  "int64 n = signed_take_bit 63 n"

definition UnixNano :: "time \<Rightarrow> int" where
  "UnixNano t = int64 t"

definition minDuration :: int where
  "minDuration = - (2 ^ 63)"

definition maxDuration :: int where
  "maxDuration = 2 ^ 63 - 1"

definition Sub :: "time \<Rightarrow> time \<Rightarrow> int" where
  "Sub t u =
     (if minDuration \<le> t - u \<and> t - u \<le> maxDuration then t - u
      else if t < u then minDuration
      else maxDuration)"

definition time_Since :: "time \<Rightarrow> 'r world \<Rightarrow> int \<times> 'r world" where
  "time_Since t w = (case time_Now w of (now, w') \<Rightarrow> (Sub now t, w'))"

text \<open>
  The value of a \<open>float64\<close> operation is the exact result rounded to the nearest number
  with 53 significant binary digits, to the even one of two nearest (IEEE 754 binary64,
  for finite results in the normal range, where all results below lie). \<open>bitlen n\<close> is
  the number of binary digits of \<open>n\<close>, and \<open>exponent2 x\<close>, for a positive \<open>x\<close>, the
  \<open>e\<close> with \<open>2 ^ e \<le> x < 2 ^ (e + 1)\<close>.
\<close>

fun bitlen :: "nat \<Rightarrow> nat" where
  "bitlen n = (if n = 0 then 0 else Suc (bitlen (n div 2)))"

definition exponent2 :: "real \<Rightarrow> int" where
  "exponent2 x =
     (if 1 \<le> x then int (bitlen (nat \<lfloor>x\<rfloor>)) - 1
      else - int (bitlen (nat (\<lceil>1 / x\<rceil> - 1))))"

definition scale2 :: "int \<Rightarrow> real" where
  "scale2 e = (if 0 \<le> e then 2 ^ nat e else 1 / 2 ^ nat (- e))"

definition round_half_even :: "real \<Rightarrow> int" where
  "round_half_even x =
     (let f = \<lfloor>x\<rfloor>; r = x - of_int f
      in if r < 1 / 2 then f else if 1 / 2 < r then f + 1 else if even f then f else f + 1)"

definition float64 :: "real \<Rightarrow> real" where
  "float64 x =
     (if x = 0 then 0
      else let q = scale2 (exponent2 \<bar>x\<bar> - 52)
           in sgn x * of_int (round_half_even (\<bar>x\<bar> / q)) * q)"

text \<open>The quotient and the remainder of Go's integer division, which truncates.\<close>

definition quo :: "int \<Rightarrow> int \<Rightarrow> int" where
  "quo a b = sgn a * sgn b * (\<bar>a\<bar> div \<bar>b\<bar>)"

definition rem :: "int \<Rightarrow> int \<Rightarrow> int" where
  "rem a b = a - b * quo a b"

text \<open>
  \<open>Duration.Hours\<close>: \<open>hour := d / Hour; nsec := d % Hour;
  return float64(hour) + float64(nsec)/(60*60*1e9)\<close>.
\<close>

definition Hours :: "int \<Rightarrow> real" where
  "Hours d =
     (let hour = quo d 3600000000000;
          nsec = rem d 3600000000000
      in float64 (float64 (of_int hour) + float64 (float64 (of_int nsec) / 3600000000000)))"

definition time_Sleep_Second :: "'r world \<Rightarrow> 'r world" where
  "time_Sleep_Second w = w\<lparr>slept := Suc (slept w)\<rparr>"

definition SynthesizeSpeech :: "'r \<Rightarrow> 'r world \<Rightarrow> response \<times> 'r world" where
  "SynthesizeSpeech ssr w = (backend w (calls w) ssr, w\<lparr>calls := Suc (calls w)\<rparr>)"

subsection \<open>Filesystem calls\<close>

text \<open>\<open>os.Stat(path)\<close> returns a nil error exactly when the file can be looked up.\<close>

definition os_Stat_ok :: "string \<Rightarrow> 'r world \<Rightarrow> bool" where
  "os_Stat_ok path w = (files w path \<noteq> None)"

text \<open>
  \<open>os.WriteFile(name, data, perm)\<close> opens with \<open>O_WRONLY|O_CREATE|O_TRUNC\<close>: a new file
  gets the permission bits \<open>perm\<close> less the umask, an existing one keeps its bits and
  loses its old bytes. A write that meets a fault changes nothing here.
\<close>

definition os_WriteFile ::
  "string \<Rightarrow> byte list \<Rightarrow> 32 word \<Rightarrow> 'r world \<Rightarrow> error option \<times> 'r world" where
  "os_WriteFile name data perm w =
     (case write_error w name of
        Some e \<Rightarrow> (Some e, w)
      | None \<Rightarrow>
          (let now = clock w (reads w);
               f = (case files w name of
                      None \<Rightarrow> \<lparr>content = data, mode = perm AND NOT (umask w),
                               mtime = now, atime = now, title_tag = None\<rparr>
                    | Some old \<Rightarrow> old\<lparr>content := data, mtime := now, title_tag := None\<rparr>)
           in (None, w\<lparr>files := (files w)(name \<mapsto> f),
                        writes := writes w @ [(name, data)]\<rparr>)))"

text \<open>
  \<open>os.Chtimes(name, atime, mtime)\<close> hands each time to the system as
  \<open>syscall.NsecToTimespec(t.UnixNano())\<close>, and leaves a file time as it is where the time
  given is the zero \<open>time.Time\<close>: \<open>utime old t\<close> is the time that the file has afterwards.
\<close>

definition utime :: "time \<Rightarrow> time \<Rightarrow> time" where
  "utime old t = (if t = zero_Time then old else UnixNano t)"

definition os_Chtimes ::
  "string \<Rightarrow> time \<Rightarrow> time \<Rightarrow> 'r world \<Rightarrow> error option \<times> 'r world" where
  "os_Chtimes name atm mtm w =
     (case chtimes_error w name of
        Some e \<Rightarrow> (Some e, w)
      | None \<Rightarrow>
          (case files w name of
             None \<Rightarrow> (Some (Error ''no such file or directory''), w)
           | Some f \<Rightarrow>
               (None, w\<lparr>files := (files w)(name \<mapsto>
                          f\<lparr>atime := utime (atime f) atm, mtime := utime (mtime f) mtm\<rparr>)\<rparr>)))"

text \<open>
  Modelled from the spec: \<open>tool.WriteID3Tag\<close> (package \<open>internal/pkg/tool\<close>, not among
  the sources) "embeds a title tag into the written file"; it returns nothing to its
  caller.
\<close>

definition WriteID3Tag :: "string \<Rightarrow> string \<Rightarrow> string \<Rightarrow> 'r world \<Rightarrow> 'r world" where
  "WriteID3Tag path title directory w =
     (case files w path of
        None \<Rightarrow> w
      | Some f \<Rightarrow> w\<lparr>files := (files w)(path \<mapsto> f\<lparr>title_tag := Some title\<rparr>)\<rparr>)"

section \<open>Library functions on strings and paths\<close>

definition hextable :: string where
  "hextable = ''0123456789abcdef''"

text \<open>\<open>hex.EncodeToString\<close>: two lower-case digits per byte, high nibble first.\<close>

fun EncodeToString :: "byte list \<Rightarrow> string" where
  "EncodeToString [] = []"
| "EncodeToString (v # src) =
     hextable ! unat (drop_bit 4 v) # hextable ! unat (v AND 0x0f) # EncodeToString src"

definition bytes :: "string \<Rightarrow> byte list" where
  "bytes s = map of_char s"

text \<open>
  \<open>md5.New()\<close> is a digest that has been fed nothing, and \<open>Sum(b)\<close> of a digest appends
  the checksum of what the digest was fed to \<open>b\<close>. The checksum function of
  \<open>crypto/md5\<close> is a parameter, \<open>checkSum\<close>.
\<close>

record md5_digest =
  fed :: "byte list"

definition md5_New :: md5_digest where
  "md5_New = \<lparr>fed = []\<rparr>"

definition md5_Sum :: "(byte list \<Rightarrow> byte list) \<Rightarrow> md5_digest \<Rightarrow> byte list \<Rightarrow> byte list" where
  "md5_Sum checkSum d b = b @ checkSum (fed d)"

text \<open>The MD5 checksum of the empty message (RFC 1321, appendix A.5).\<close>

definition md5_of_nothing :: "byte list" where
  "md5_of_nothing =
     [0xd4, 0x1d, 0x8c, 0xd9, 0x8f, 0x00, 0xb2, 0x04,
      0xe9, 0x80, 0x09, 0x98, 0xec, 0xf8, 0x42, 0x7e]"

text \<open>
  A checksum function that agrees with MD5 on the empty message, the only message that
  the worker has digested.
\<close>

definition checkSum_empty :: "byte list \<Rightarrow> byte list" where
  "checkSum_empty m = md5_of_nothing"

text \<open>\<open>strings.ReplaceAll(s, old, new)\<close> for a one-byte \<open>old\<close>.\<close>

definition ReplaceAll :: "string \<Rightarrow> char \<Rightarrow> string \<Rightarrow> string" where
  "ReplaceAll s old new = concat (map (\<lambda>c. if c = old then new else [c]) s)"

fun HasPrefix :: "string \<Rightarrow> string \<Rightarrow> bool" where
  "HasPrefix s [] = True"
| "HasPrefix [] (p # ps) = False"
| "HasPrefix (c # s) (p # ps) = (c = p \<and> HasPrefix s ps)"

fun Contains :: "string \<Rightarrow> string \<Rightarrow> bool" where
  "Contains [] substr = (substr = [])"
| "Contains (c # s) substr = (HasPrefix (c # s) substr \<or> Contains s substr)"

text \<open>
  \<open>strings.ToLower\<close> on the letters \<open>A\<close> to \<open>Z\<close>; the other bytes are kept (no other
  character has \<open>z\<close> or \<open>h\<close> as its lower case).
\<close>

definition toLower :: "char \<Rightarrow> char" where
  "toLower c =
     (case map_of (zip ''ABCDEFGHIJKLMNOPQRSTUVWXYZ'' ''abcdefghijklmnopqrstuvwxyz'') c of
        Some l \<Rightarrow> l
      | None \<Rightarrow> c)"

definition ToLower :: "string \<Rightarrow> string" where
  "ToLower s = map toLower s"

text \<open>
  \<open>filepath.Clean\<close>, \<open>filepath.Join\<close> and \<open>filepath.Abs\<close> on Unix, after their
  documentation: a path is cut at its slashes, empty and \<open>.\<close> elements go, a \<open>..\<close>
  takes the element before it away (at the root it goes alone, at the start of a
  relative path it stays), and an empty result is \<open>.\<close>. \<open>os.Getwd\<close> gives \<open>cwd\<close>.
\<close>

fun splitOn :: "char \<Rightarrow> string \<Rightarrow> string list" where
  "splitOn sep [] = [[]]"
| "splitOn sep (c # s) =
     (if c = sep then [] # splitOn sep s
      else (case splitOn sep s of [] \<Rightarrow> [[c]] | e # es \<Rightarrow> (c # e) # es))"

fun intercalate :: "string \<Rightarrow> string list \<Rightarrow> string" where
  "intercalate sep [] = []"
| "intercalate sep [e] = e"
| "intercalate sep (e # es) = e @ sep @ intercalate sep es"

definition IsAbs :: "string \<Rightarrow> bool" where
  "IsAbs path = (case path of [] \<Rightarrow> False | c # _ \<Rightarrow> c = CHR ''/'')"

definition cleanStep :: "bool \<Rightarrow> string list \<Rightarrow> string \<Rightarrow> string list" where
  "cleanStep rooted st e =
     (if e = [] \<or> e = ''.'' then st
      else if e = ''..'' then
        (case st of
           [] \<Rightarrow> if rooted then [] else [''..'']
         | t # ts \<Rightarrow> if t = ''..'' then e # t # ts else ts)
      else e # st)"

definition Clean :: "string \<Rightarrow> string" where
  "Clean path =
     (if path = [] then ''.''
      else let rooted = IsAbs path;
               body = intercalate ''/'' (rev (foldl (cleanStep rooted) [] (splitOn CHR ''/'' path)))
           in if rooted then CHR ''/'' # body else if body = [] then ''.'' else body)"

definition Join :: "string list \<Rightarrow> string" where
  "Join elem =
     (let es = filter (\<lambda>e. e \<noteq> []) elem
      in if es = [] then [] else Clean (intercalate ''/'' es))"

definition Abs :: "string \<Rightarrow> 'r world \<Rightarrow> string" where
  "Abs path w = (if IsAbs path then Clean path else Join [cwd w, path])"

section \<open>The producer: \<open>CreateSpeechFromItems\<close>\<close>

text \<open>
  \<open>isInRange\<close> dereferences its pointer before the clock is read; a nil pointer is
  the panic of the Go runtime.
\<close>

definition isInRange :: "time option \<Rightarrow> real \<Rightarrow> 'r world \<Rightarrow> (panic + bool) \<times> 'r world" where
  "isInRange itemPublishTime itemSince w =
     (case itemPublishTime of
        None \<Rightarrow> (Inl NilPointerDereference, w)
      | Some t \<Rightarrow> (case time_Since t w of (d, w') \<Rightarrow> (Inr (Hours d \<le> itemSince), w')))"

definition itemSize :: "int \<Rightarrow> int \<Rightarrow> int" where
  "itemSize sz limit = (if sz > limit then limit else sz)"

definition feedLanguage :: "string \<Rightarrow> string" where
  "feedLanguage lang = (if Contains (ToLower lang) ''zh'' then ''cmn-CN'' else lang)"

text \<open>
  The channel is the list of the requests sent and not yet received; a send appends.
  (The channel of the source has room for every request of a run, so no send waits.)
  The loop runs over \<open>feed.Items[:itemSize]\<close> with its counter \<open>itemCnt\<close>, and stops
  where \<open>isInRange\<close> panics.
\<close>

fun enqueueItems ::
  "Config \<Rightarrow> string \<Rightarrow> string \<Rightarrow> int \<Rightarrow> gofeed_Item list \<Rightarrow> int \<Rightarrow> WorkerRequest list
     \<Rightarrow> 'r world \<Rightarrow> panic option \<times> WorkerRequest list \<times> 'r world" where
  "enqueueItems config lang directory n [] itemCnt channel w = (None, channel, w)"
| "enqueueItems config lang directory n (item # rest) itemCnt channel w =
     (case isInRange (PublishedParsed item) (ItemSince config) w of
        (Inl p, w') \<Rightarrow> (Some p, channel, w')
      | (Inr inRange, w') \<Rightarrow>
          if inRange \<and> itemCnt < n then
            enqueueItems config lang directory n rest (itemCnt + 1)
              (channel @ [\<lparr>Item = item, Directory = directory, LanguageCode = lang,
                            Request_UseNaturalVoice = UseNaturalVoice config,
                            Request_SpeechSpeed = SpeechSpeed config\<rparr>])
              (logf (LogAddingItem (Title item)) w')
          else enqueueItems config lang directory n rest itemCnt channel w')"

definition CreateSpeechFromItems ::
  "Config \<Rightarrow> WorkerRequest list \<Rightarrow> gofeed_Feed \<Rightarrow> string \<Rightarrow> 'r world
     \<Rightarrow> panic option \<times> WorkerRequest list \<times> 'r world" where
  "CreateSpeechFromItems config channel feed directory w =
     (let w1 = logf (LogFeedTitle (Feed_Title feed)) w;
          n = itemSize (int (length (Items feed))) (MaxItemPerFeed config);
          lang = feedLanguage (Language feed)
      in if n < 0 then (Some SliceBoundsOutOfRange, channel, w1)
         else enqueueItems config lang directory n (take (nat n) (Items feed)) 0 channel w1)"

section \<open>The remote worker: \<open>processSpeechGeneration\<close>\<close>

definition fileExistsAndLog :: "string \<Rightarrow> 'r world \<Rightarrow> bool \<times> 'r world" where
  "fileExistsAndLog path w =
     (if os_Stat_ok path w then (True, logf (LogFileExists path) w) else (False, w))"

definition hashString :: "(byte list \<Rightarrow> byte list) \<Rightarrow> string \<Rightarrow> string" where
  "hashString checkSum title =
     (let hash = md5_Sum checkSum md5_New (bytes title);
          hs = EncodeToString hash
      in if length hs > 50 then take 50 hs else hs)"

definition filePath :: "(byte list \<Rightarrow> byte list) \<Rightarrow> WorkerRequest \<Rightarrow> 'r world \<Rightarrow> string" where
  "filePath checkSum workerItem w =
     Abs (Directory workerItem @ ''/'' @ hashString checkSum (Title (Item workerItem)) @ ''.mp3'') w"

text \<open>The same path in \<open>processSpeechGenerationOffline\<close>, with the other extension.\<close>

definition filePathOffline :: "(byte list \<Rightarrow> byte list) \<Rightarrow> WorkerRequest \<Rightarrow> 'r world \<Rightarrow> string" where
  "filePathOffline checkSum workerItem w =
     Abs (Directory workerItem @ ''/'' @ hashString checkSum (Title (Item workerItem)) @ ''.wav'') w"

definition legacyFilePath :: "WorkerRequest \<Rightarrow> 'r world \<Rightarrow> string" where
  "legacyFilePath workerItem w =
     Abs (ReplaceAll (Title (Item workerItem)) CHR ''/'' [CHR 0x5C, CHR ''/''] @ ''.mp3'') w"

text \<open>
  The test of the \<open>if\<close> before \<open>continue\<close>: \<open>||\<close> looks at the hashed path only when
  the legacy path is absent.
\<close>

definition shouldSkip :: "(byte list \<Rightarrow> byte list) \<Rightarrow> WorkerRequest \<Rightarrow> 'r world \<Rightarrow> bool \<times> 'r world" where
  "shouldSkip checkSum workerItem w =
     (case fileExistsAndLog (legacyFilePath workerItem w) w of
        (True, w') \<Rightarrow> (True, w')
      | (False, w') \<Rightarrow> fileExistsAndLog (filePath checkSum workerItem w') w')"

text \<open>
  The retry loop of one sub-request, from \<open>i\<close> on, with the \<open>err\<close> and the
  \<open>audioContent\<close> of the enclosing scope.
\<close>

function retryLoop ::
  "nat \<Rightarrow> 'r \<Rightarrow> error option \<Rightarrow> byte list \<Rightarrow> 'r world \<Rightarrow> error option \<times> byte list \<times> 'r world" where
  "retryLoop i ssr err audioContent w =
     (if i < SPEECH_SYNTHESIZE_RETRY_CNT then
        (let w1 = (if i > 0 then time_Sleep_Second (logf (LogRetry err i) w) else w)
         in case SynthesizeSpeech ssr w1 of
              (Inl e, w2) \<Rightarrow>
                retryLoop (i + 1) ssr (Some e) audioContent (logf (LogErrorEncountered e) w2)
            | (Inr audio, w2) \<Rightarrow>
                if length audio > 0 then (None, audioContent @ audio, w2)
                else retryLoop (i + 1) ssr None audioContent w2)
      else (err, audioContent, w))"
  by pat_completeness auto
termination
  by (relation "measure (\<lambda>(i, ssr, err, audioContent, w). SPEECH_SYNTHESIZE_RETRY_CNT - i)") auto

text \<open>The loop over \<open>speechRequests\<close>: it returns at the first sub-request left with an error.\<close>

fun synthesizeAll ::
  "'r list \<Rightarrow> byte list \<Rightarrow> 'r world \<Rightarrow> error option \<times> byte list \<times> 'r world" where
  "synthesizeAll [] audioContent w = (None, audioContent, w)"
| "synthesizeAll (ssr # rest) audioContent w =
     (case retryLoop 0 ssr None audioContent w of
        (Some e, audioContent', w') \<Rightarrow> (Some e, audioContent', w')
      | (None, audioContent', w') \<Rightarrow> synthesizeAll rest audioContent' w')"

definition fileTime :: "gofeed_Item \<Rightarrow> 'r world \<Rightarrow> time \<times> 'r world" where
  "fileTime item w =
     (case UpdatedParsed item of
        Some t \<Rightarrow> (t, w)
      | None \<Rightarrow> (case PublishedParsed item of Some t \<Rightarrow> (t, w) | None \<Rightarrow> time_Now w))"

text \<open>
  One turn of the loop over the channel: \<open>Skipped\<close> is its \<open>continue\<close>, \<open>Returned\<close> a
  \<open>return err\<close> of the function, \<open>Finished\<close> the end of the body. The sub-requests
  come from \<open>rss.GetSynthesizeSpeechRequests\<close> (package \<open>internal/pkg/rss\<close>), a
  parameter here.
\<close>

datatype outcome = Skipped | Finished | Returned error

definition loopBody ::
  "(byte list \<Rightarrow> byte list) \<Rightarrow> (gofeed_Item \<Rightarrow> string \<Rightarrow> bool \<Rightarrow> real \<Rightarrow> 'r list)
     \<Rightarrow> WorkerRequest \<Rightarrow> 'r world \<Rightarrow> outcome \<times> 'r world" where
  "loopBody checkSum GetSynthesizeSpeechRequests workerItem w =
     (let feedItem = Item workerItem;
          w1 = logf (LogStartProcessing (Title feedItem)) w;
          path = filePath checkSum workerItem w1
      in case shouldSkip checkSum workerItem w1 of
           (True, w2) \<Rightarrow> (Skipped, w2)
         | (False, w2) \<Rightarrow>
             (let speechRequests =
                    GetSynthesizeSpeechRequests feedItem (LanguageCode workerItem)
                      (Request_UseNaturalVoice workerItem) (Request_SpeechSpeed workerItem)
              in case synthesizeAll speechRequests [] w2 of
                   (Some e, audioContent, w3) \<Rightarrow> (Returned e, w3)
                 | (None, audioContent, w3) \<Rightarrow>
                     (case os_WriteFile path audioContent 493 w3 of
                        (Some e, w4) \<Rightarrow> (Returned e, logf (LogErrWriting e) w4)
                      | (None, w4) \<Rightarrow>
                          (let w5 = WriteID3Tag path (Title feedItem) (Directory workerItem) w4
                           in case fileTime feedItem w5 of
                                (t, w6) \<Rightarrow>
                                  (case os_Chtimes path t t w6 of
                                     (Some e, w7) \<Rightarrow> (Returned e, logf (LogErr e) w7)
                                   | (None, w7) \<Rightarrow>
                                       (Finished,
                                        logf (LogFinished (Title feedItem) path) w7))))))"

text \<open>
  The worker, on the requests that the channel still holds when it starts (the channel
  is closed behind them): it gives back the error it returns, if any, the requests it
  has left in the channel, and the world.
\<close>

fun processSpeechGeneration ::
  "(byte list \<Rightarrow> byte list) \<Rightarrow> (gofeed_Item \<Rightarrow> string \<Rightarrow> bool \<Rightarrow> real \<Rightarrow> 'r list)
     \<Rightarrow> WorkerRequest list \<Rightarrow> 'r world \<Rightarrow> error option \<times> WorkerRequest list \<times> 'r world" where
  "processSpeechGeneration checkSum GetSynthesizeSpeechRequests [] w = (None, [], w)"
| "processSpeechGeneration checkSum GetSynthesizeSpeechRequests (workerItem # workerItems) w =
     (case loopBody checkSum GetSynthesizeSpeechRequests workerItem w of
        (Returned e, w') \<Rightarrow> (Some e, workerItems, w')
      | (_, w') \<Rightarrow>
          processSpeechGeneration checkSum GetSynthesizeSpeechRequests workerItems w')"

section \<open>Notions used in the statements\<close>

text \<open>
  Two worlds that differ at most in the number of backend calls, the seconds slept and the
  log: what the synthesis loops may change.
\<close>

definition same_outside :: "'r world \<Rightarrow> 'r world \<Rightarrow> bool" where
  "same_outside w w' =
     (cwd w' = cwd w \<and> umask w' = umask w \<and> files w' = files w \<and>
      write_error w' = write_error w \<and> chtimes_error w' = chtimes_error w \<and>
      backend w' = backend w \<and> clock w' = clock w \<and> reads w' = reads w \<and>
      writes w' = writes w)"

text \<open>
  An answer after which the retry loop tries again: an error, or no error and an empty
  audio payload.
\<close>

definition failure :: "response \<Rightarrow> bool" where
  "failure r = (case r of Inl e \<Rightarrow> True | Inr audio \<Rightarrow> audio = [])"

text \<open>
  \<open>answers be c ssr rs\<close>: from its call number \<open>c\<close> on, the backend gives the answers
  \<open>rs\<close>, in this order, to the request \<open>ssr\<close>. \<open>scripted be c reqs script\<close>: from call
  \<open>c\<close> on, each sub-request of \<open>reqs\<close> in turn meets the failures listed for it, fewer
  than the retry count, and then its non-empty audio. \<open>attempts\<close> and \<open>retries\<close> count
  the calls and the repeated calls of a script.
\<close>

fun answers :: "(nat \<Rightarrow> 'r \<Rightarrow> response) \<Rightarrow> nat \<Rightarrow> 'r \<Rightarrow> response list \<Rightarrow> bool" where
  "answers be c ssr [] = True"
| "answers be c ssr (r # rs) = (be c ssr = r \<and> answers be (Suc c) ssr rs)"

fun scripted ::
  "(nat \<Rightarrow> 'r \<Rightarrow> response) \<Rightarrow> nat \<Rightarrow> 'r list \<Rightarrow> (response list \<times> byte list) list \<Rightarrow> bool" where
  "scripted be c [] [] = True"
| "scripted be c (ssr # rest) ((fails, audio) # script) =
     (answers be c ssr (fails @ [Inr audio]) \<and> list_all failure fails \<and>
      length fails < SPEECH_SYNTHESIZE_RETRY_CNT \<and>
      audio \<noteq> [] \<and> scripted be (c + length fails + 1) rest script)"
| "scripted be c _ _ = False"

definition attempts :: "(response list \<times> byte list) list \<Rightarrow> nat" where
  "attempts script = sum_list (map (\<lambda>(fails, audio). length fails + 1) script)"

definition retries :: "(response list \<times> byte list) list \<Rightarrow> nat" where
  "retries script = sum_list (map (\<lambda>(fails, audio). length fails) script)"

text \<open>
  \<open>leaves rs\<close>: \<open>rs\<close> are answers with which the retry loop of a sub-request ends
  without an error: failures and then a non-empty audio within the retry count, or as
  many failures as the retry count, the last of them an empty payload. \<open>audio_of rs\<close> is
  the audio that the loop has then appended. \<open>ran be c reqs runs\<close>: from call \<open>c\<close> on, each
  sub-request of \<open>reqs\<close> in turn gets the answers listed for it and its loop leaves with
  them.
\<close>

definition audio_of :: "response list \<Rightarrow> byte list" where
  "audio_of rs = (case last rs of Inl e \<Rightarrow> [] | Inr audio \<Rightarrow> audio)"

definition leaves :: "response list \<Rightarrow> bool" where
  "leaves rs =
     (rs \<noteq> [] \<and> list_all failure (butlast rs) \<and>
      (case last rs of
         Inl e \<Rightarrow> False
       | Inr audio \<Rightarrow>
           if audio = [] then length rs = SPEECH_SYNTHESIZE_RETRY_CNT
           else length rs \<le> SPEECH_SYNTHESIZE_RETRY_CNT))"

fun ran :: "(nat \<Rightarrow> 'r \<Rightarrow> response) \<Rightarrow> nat \<Rightarrow> 'r list \<Rightarrow> response list list \<Rightarrow> bool" where
  "ran be c [] [] = True"
| "ran be c (ssr # rest) (rs # runs) =
     (answers be c ssr rs \<and> leaves rs \<and> ran be (c + length rs) rest runs)"
| "ran be c _ _ = False"

text \<open>The sub-requests of a request, as the body of the worker asks for them.\<close>

definition requestsOf ::
  "(gofeed_Item \<Rightarrow> string \<Rightarrow> bool \<Rightarrow> real \<Rightarrow> 'r list) \<Rightarrow> WorkerRequest \<Rightarrow> 'r list" where
  "requestsOf G req =
     G (Item req) (LanguageCode req) (Request_UseNaturalVoice req) (Request_SpeechSpeed req)"



definition expectedTime :: "gofeed_Item \<Rightarrow> time \<Rightarrow> time" where
  "expectedTime item now =
     (case UpdatedParsed item of
        Some t \<Rightarrow> t
      | None \<Rightarrow> (case PublishedParsed item of Some t \<Rightarrow> t | None \<Rightarrow> now))"

text \<open>
  The request that the producer builds for an item; the test of the recency window at the
  \<open>k\<close>-th reading of the clock; the items of a feed that the producer looks at.
\<close>

definition requestFor :: "Config \<Rightarrow> string \<Rightarrow> string \<Rightarrow> gofeed_Item \<Rightarrow> WorkerRequest" where
  "requestFor config lang directory item =
     \<lparr>Item = item, Directory = directory, LanguageCode = lang,
      Request_UseNaturalVoice = UseNaturalVoice config,
      Request_SpeechSpeed = SpeechSpeed config\<rparr>"

definition withinWindow :: "Config \<Rightarrow> (nat \<Rightarrow> time) \<Rightarrow> nat \<times> gofeed_Item \<Rightarrow> bool" where
  "withinWindow config clk = (\<lambda>(k, item).
     case PublishedParsed item of
       Some t \<Rightarrow> Hours (Sub (clk k) t) \<le> ItemSince config
     | None \<Rightarrow> False)"

definition considered :: "Config \<Rightarrow> gofeed_Feed \<Rightarrow> gofeed_Item list" where
  "considered config feed =
     take (nat (min (int (length (Items feed))) (MaxItemPerFeed config))) (Items feed)"

text \<open>
  The path at which the earlier worker, \<open>speechSynthesizeWorker\<close> of package \<open>main\<close> (the
  first part of \<open>src/main.go\<close>), wrote the file of an item: the layout that the legacy
  path of the later worker is there to find.
\<close>

definition speechSynthesizeWorker_filepath :: "WorkerRequest \<Rightarrow> 'r world \<Rightarrow> string" where
  "speechSynthesizeWorker_filepath workerItem w =
     Abs (Directory workerItem @ ''/'' @
          (ReplaceAll (Title (Item workerItem)) CHR ''/'' [CHR 0x5C, CHR ''/''] @ ''.mp3'')) w"

section \<open>Example data\<close>

text \<open>
  The clock stands at hour 1000; \<open>A\<close> was published one hour before, \<open>B\<close> 72 hours
  before, and the window is 48 hours. The backend of \<open>example_world\<close> refuses its first
  four calls, that of \<open>failing_world\<close> its first five; afterwards both answer a request
  with its own bytes. \<open>legacy_world\<close> holds a file written by the earlier worker for \<open>A\<close>, and
  \<open>readonly_world\<close> refuses every write, \<open>frozen_world\<close> every change of file times. The
  backend of \<open>mute_world\<close> answers every call with an empty payload and no error, that of
  \<open>fading_world\<close> does so after four refusals. \<open>Z\<close> and \<open>late\<close> are \<open>A\<close> with an update time:
  the zero time, and an instant in the year 2286. \<open>gap_feed\<close> has an undated item between
  two copies of \<open>A\<close>.
\<close>

definition item_A :: gofeed_Item where
  "item_A = \<lparr>Title = ''A'', Content = ''<p>Hello</p>'', Description = [],
     UpdatedParsed = None, PublishedParsed = Some 3596400000000000\<rparr>"

definition item_B :: gofeed_Item where
  "item_B = \<lparr>Title = ''B'', Content = ''<p>Old</p>'', Description = [],
     UpdatedParsed = None, PublishedParsed = Some 3340800000000000\<rparr>"

definition item_undated :: gofeed_Item where
  "item_undated = \<lparr>Title = ''C'', Content = [], Description = [],
     UpdatedParsed = None, PublishedParsed = None\<rparr>"

definition example_config :: Config where
  "example_config = \<lparr>MaxItemPerFeed = 5, ItemSince = 48, UseNaturalVoice = False, SpeechSpeed = 1\<rparr>"

definition example_feed :: gofeed_Feed where
  "example_feed = \<lparr>Feed_Title = ''Feed'', Language = ''zh-TW'', Items = [item_A, item_B]\<rparr>"

definition undated_feed :: gofeed_Feed where
  "undated_feed = \<lparr>Feed_Title = ''Feed'', Language = ''en-US'', Items = [item_A, item_undated]\<rparr>"

definition example_world :: "string world" where
  "example_world = \<lparr>cwd = ''/srv'', umask = 18, files = Map.empty,
     write_error = (\<lambda>p. None), chtimes_error = (\<lambda>p. None),
     backend = (\<lambda>k ssr. if k < 4 then Inl (Error ''unavailable'') else Inr (bytes ssr)),
     clock = (\<lambda>k. 3600000000000000 + int k),
     calls = 0, reads = 0, slept = 0, writes = [], log = []\<rparr>"

definition two_chunks :: "gofeed_Item \<Rightarrow> string \<Rightarrow> bool \<Rightarrow> real \<Rightarrow> string list" where
  "two_chunks item lang natural speed = [Title item, Content item]"

definition request_A :: WorkerRequest where
  "request_A = requestFor example_config ''en-US'' ''/out'' item_A"

definition request_B :: WorkerRequest where
  "request_B = requestFor example_config ''en-US'' ''/out'' item_B"

definition failing_world :: "string world" where
  "failing_world = example_world
     \<lparr>backend := (\<lambda>k ssr. if k < 5 then Inl (Error ''unavailable'') else Inr (bytes ssr))\<rparr>"

definition readonly_world :: "string world" where
  "readonly_world = example_world\<lparr>write_error := (\<lambda>p. Some (Error ''read-only file system''))\<rparr>"

definition frozen_world :: "string world" where
  "frozen_world = example_world\<lparr>chtimes_error := (\<lambda>p. Some (Error ''operation not permitted''))\<rparr>"

definition mute_world :: "string world" where
  "mute_world = example_world\<lparr>backend := (\<lambda>k ssr. Inr [])\<rparr>"

definition fading_world :: "string world" where
  "fading_world = example_world
     \<lparr>backend := (\<lambda>k ssr. if k < 4 then Inl (Error ''unavailable'') else Inr [])\<rparr>"





definition aged_world :: "string world" where
  "aged_world = example_world\<lparr>clock := (\<lambda>k. 14745600000000001)\<rparr>"

definition gap_feed :: gofeed_Feed where
  "gap_feed = \<lparr>Feed_Title = ''Feed'', Language = ''en-US'',
     Items = [item_A, item_undated, item_A]\<rparr>"

definition script_A :: "(response list \<times> byte list) list" where
  "script_A = [(replicate 4 (Inl (Error ''unavailable'')), bytes ''A''), ([], bytes ''<p>Hello</p>'')]"

definition path_A :: string where
  "path_A = ''/out/41d41d8cd98f00b204e9800998ecf8427e.mp3''"

definition path_B :: string where
  "path_B = ''/out/42d41d8cd98f00b204e9800998ecf8427e.mp3''"

definition legacy_world :: "string world" where
  "legacy_world = example_world
     \<lparr>files := [''/out/A.mp3'' \<mapsto>
        \<lparr>content = bytes ''old audio'', mode = 420, mtime = 3596400000000000,
         atime = 3596400000000000, title_tag = None\<rparr>]\<rparr>"

section \<open>Properties of the worker\<close>

lemma same_outside_refl [simp]: "same_outside w w"
  by (simp add: same_outside_def)

lemma same_outside_trans: "same_outside w w' \<Longrightarrow> same_outside w' w'' \<Longrightarrow> same_outside w w''"
  by (simp add: same_outside_def)

lemma same_outside_logf [simp]: "same_outside w (logf e w')  = same_outside w w'"
  by (simp add: same_outside_def logf_def)

lemma same_outside_sleep [simp]: "same_outside w (time_Sleep_Second w') = same_outside w w'"
  by (simp add: same_outside_def time_Sleep_Second_def)

lemma same_outside_call: "SynthesizeSpeech ssr w = (r, w') \<Longrightarrow> same_outside w w'"
  by (auto simp add: same_outside_def SynthesizeSpeech_def)

declare retryLoop.simps [simp del]

lemma retryLoop_same_outside:
  "retryLoop i ssr err acc w = (err', acc', w') \<Longrightarrow> same_outside w w'"
proof (induction i ssr err acc w rule: retryLoop.induct)
  case (1 i ssr err audioContent w)
  show ?case
  proof (cases "i < SPEECH_SYNTHESIZE_RETRY_CNT")
    case False
    with "1.prems" show ?thesis by (simp add: retryLoop.simps [of i])
  next
    case True
    define w1 where "w1 = (if i > 0 then time_Sleep_Second (logf (LogRetry err i) w) else w)"
    have s1: "same_outside w w1" by (simp add: w1_def)
    obtain r w2 where call: "SynthesizeSpeech ssr w1 = (r, w2)" by (cases "SynthesizeSpeech ssr w1")
    have s2: "same_outside w w2" using s1 same_outside_call [OF call] by (rule same_outside_trans)
    show ?thesis
    proof (cases r)
      case (Inl e)
      have "retryLoop (i + 1) ssr (Some e) audioContent (logf (LogErrorEncountered e) w2) = (err', acc', w')"
        using "1.prems" True call Inl by (simp add: retryLoop.simps [of i] w1_def)
      from "1.IH"(1) [OF True w1_def call [symmetric] Inl this]
      have "same_outside (logf (LogErrorEncountered e) w2) w'" .
      then have "same_outside w2 w'" by (simp add: same_outside_def logf_def)
      with s2 show ?thesis by (rule same_outside_trans)
    next
      case (Inr audio)
      show ?thesis
      proof (cases "length audio > 0")
        case True
        with "1.prems" \<open>i < SPEECH_SYNTHESIZE_RETRY_CNT\<close> call Inr have "w' = w2"
          by (simp add: retryLoop.simps [of i] w1_def)
        with s2 show ?thesis by simp
      next
        case False
        have "retryLoop (i + 1) ssr None audioContent w2 = (err', acc', w')"
          using "1.prems" \<open>i < SPEECH_SYNTHESIZE_RETRY_CNT\<close> call Inr False
          by (simp add: retryLoop.simps [of i] w1_def)
        from "1.IH"(2) [OF \<open>i < SPEECH_SYNTHESIZE_RETRY_CNT\<close> w1_def call [symmetric] Inr _ this] False
        have "same_outside w2 w'" by simp
        with s2 show ?thesis by (rule same_outside_trans)
      qed
    qed
  qed
qed

lemma synthesizeAll_same_outside:
  "synthesizeAll reqs acc w = (err', acc', w') \<Longrightarrow> same_outside w w'"
proof (induction reqs arbitrary: acc w)
  case Nil
  then show ?case by simp
next
  case (Cons ssr rest)
  obtain e a w1 where r: "retryLoop 0 ssr None acc w = (e, a, w1)"
    by (cases "retryLoop 0 ssr None acc w") auto
  have s1: "same_outside w w1" using r by (rule retryLoop_same_outside)
  show ?case
  proof (cases e)
    case None
    with Cons.prems r have "synthesizeAll rest a w1 = (err', acc', w')" by simp
    then have "same_outside w1 w'" by (rule Cons.IH)
    with s1 show ?thesis by (rule same_outside_trans)
  next
    case (Some x)
    with Cons.prems r have "w' = w1" by simp
    with s1 show ?thesis by simp
  qed
qed

lemma call_eq:
  "SynthesizeSpeech ssr w = (backend w (calls w) ssr, w\<lparr>calls := Suc (calls w)\<rparr>)"
  by (simp add: SynthesizeSpeech_def)

lemma retryLoop_script:
  assumes "answers (backend w) (calls w) ssr (fails @ [Inr audio])"
    and "list_all failure fails" and "i + length fails < 5" and "audio \<noteq> []"
  shows "\<exists>w'. retryLoop i ssr err acc w = (None, acc @ audio, w') \<and> same_outside w w' \<and>
           calls w' = calls w + length fails + 1 \<and>
           slept w' = slept w + length fails + (if i = 0 then 0 else 1)"
  using assms
proof (induction fails arbitrary: i err w)
  case Nil
  then show ?case
    by (simp add: retryLoop.simps [of i] SPEECH_SYNTHESIZE_RETRY_CNT_def call_eq
        same_outside_def logf_def time_Sleep_Second_def)
next
  case (Cons f fs)
  define w1 where "w1 = (if i > 0 then time_Sleep_Second (logf (LogRetry err i) w) else w)"
  define w2 where "w2 = w1\<lparr>calls := Suc (calls w1)\<rparr>"
  have w1: "backend w1 = backend w" "calls w1 = calls w" "same_outside w w1"
    "slept w1 = slept w + (if i = 0 then 0 else 1)"
    by (simp_all add: w1_def logf_def time_Sleep_Second_def same_outside_def)
  have w2: "backend w2 = backend w" "calls w2 = Suc (calls w)" "same_outside w w2"
    "slept w2 = slept w + (if i = 0 then 0 else 1)"
    using w1 by (simp_all add: w2_def same_outside_def)
  have call: "SynthesizeSpeech ssr w1 = (f, w2)"
    using Cons.prems(1) w1(1,2) by (simp add: call_eq w2_def)
  have unfold: "retryLoop i ssr err acc w =
      (case SynthesizeSpeech ssr w1 of
         (Inl e, w2) \<Rightarrow> retryLoop (i + 1) ssr (Some e) acc (logf (LogErrorEncountered e) w2)
       | (Inr audio, w2) \<Rightarrow>
           if length audio > 0 then (None, acc @ audio, w2)
           else retryLoop (i + 1) ssr None acc w2)"
    using Cons.prems(3)
    by (subst retryLoop.simps) (simp add: SPEECH_SYNTHESIZE_RETRY_CNT_def w1_def)
  have f: "backend w (calls w) ssr = f" and rest: "answers (backend w) (Suc (calls w)) ssr (fs @ [Inr audio])"
    using Cons.prems(1) by simp_all
  have i: "i < SPEECH_SYNTHESIZE_RETRY_CNT" "(i + 1) + length fs < 5"
    using Cons.prems(3) by (simp_all add: SPEECH_SYNTHESIZE_RETRY_CNT_def)
  have ff: "failure f" and fsf: "list_all failure fs" using Cons.prems(2) by simp_all
  show ?case
  proof (cases f)
    case (Inl e)
    define w3 where "w3 = logf (LogErrorEncountered e) w2"
    have w3: "backend w3 = backend w" "calls w3 = Suc (calls w)" "same_outside w w3"
      "slept w3 = slept w + (if i = 0 then 0 else 1)"
      using w2 by (simp_all add: w3_def logf_def same_outside_def)
    have step: "retryLoop i ssr err acc w = retryLoop (i + 1) ssr (Some e) acc w3"
      using Inl by (simp add: unfold call w3_def)
    from Cons.IH [of w3 "i + 1" "Some e"] rest fsf i(2) Cons.prems(4) w3(1,2)
    obtain w' where "retryLoop (i + 1) ssr (Some e) acc w3 = (None, acc @ audio, w')"
      "same_outside w3 w'" "calls w' = calls w3 + length fs + 1"
      "slept w' = slept w3 + length fs + 1"
      by auto
    then show ?thesis using step w3 same_outside_trans [of w w3 w'] by auto
  next
    case (Inr a)
    with ff have a: "a = []" by (simp add: failure_def)
    have step: "retryLoop i ssr err acc w = retryLoop (i + 1) ssr None acc w2"
      using Inr a by (simp add: unfold call)
    from Cons.IH [of w2 "i + 1" None] rest fsf i(2) Cons.prems(4) w2(1,2)
    obtain w' where "retryLoop (i + 1) ssr None acc w2 = (None, acc @ audio, w')"
      "same_outside w2 w'" "calls w' = calls w2 + length fs + 1"
      "slept w' = slept w2 + length fs + 1"
      by auto
    then show ?thesis using step w2 same_outside_trans [of w w2 w'] by auto
  qed
qed

lemma retryLoop_failure_step:
  assumes "i < 5" and "backend w (calls w) ssr = f" and "failure f"
  shows "\<exists>w1. retryLoop i ssr err acc w =
             retryLoop (i + 1) ssr (case f of Inl e \<Rightarrow> Some e | Inr a \<Rightarrow> None) acc w1 \<and>
           same_outside w w1 \<and> calls w1 = Suc (calls w) \<and>
           slept w1 = slept w + (if i = 0 then 0 else 1)"
proof (cases f)
  case (Inl e)
  show ?thesis
    apply (rule exI [of _ "logf (LogErrorEncountered e)
        ((if i > 0 then time_Sleep_Second (logf (LogRetry err i) w) else w)
           \<lparr>calls := Suc (calls w)\<rparr>)"])
    using assms Inl
    apply (subst retryLoop.simps)
    apply (simp add: SPEECH_SYNTHESIZE_RETRY_CNT_def call_eq same_outside_def logf_def
        time_Sleep_Second_def)
    done
next
  case (Inr a)
  with assms(3) have "a = []" by (simp add: failure_def)
  show ?thesis
    apply (rule exI [of _ "(if i > 0 then time_Sleep_Second (logf (LogRetry err i) w) else w)
           \<lparr>calls := Suc (calls w)\<rparr>"])
    using assms Inr \<open>a = []\<close>
    apply (subst retryLoop.simps)
    apply (simp add: SPEECH_SYNTHESIZE_RETRY_CNT_def call_eq same_outside_def logf_def
        time_Sleep_Second_def)
    done
qed

lemma retryLoop_exhausted:
  assumes "answers (backend w) (calls w) ssr (fails @ [Inl e])"
    and "list_all failure fails" and "i + length fails = 4"
  shows "\<exists>w'. retryLoop i ssr err acc w = (Some e, acc, w') \<and> same_outside w w' \<and>
           calls w' = calls w + length fails + 1 \<and>
           slept w' = slept w + length fails + (if i = 0 then 0 else 1)"
  using assms
proof (induction fails arbitrary: i err w)
  case Nil
  then have i: "i = 4" and b: "backend w (calls w) ssr = Inl e" by simp_all
  from retryLoop_failure_step [of i w ssr "Inl e" err acc] i b
  obtain w1 where 1: "retryLoop i ssr err acc w = retryLoop 5 ssr (Some e) acc w1"
    "same_outside w w1" "calls w1 = Suc (calls w)" "slept w1 = slept w + 1"
    by (auto simp add: failure_def)
  have "retryLoop 5 ssr (Some e) acc w1 = (Some e, acc, w1)"
    by (subst retryLoop.simps) (simp add: SPEECH_SYNTHESIZE_RETRY_CNT_def)
  with 1 i show ?case by simp
next
  case (Cons f fs)
  have f: "backend w (calls w) ssr = f" "failure f" "i < 5" "i + 1 + length fs = 4"
    and rest: "answers (backend w) (Suc (calls w)) ssr (fs @ [Inl e])" "list_all failure fs"
    using Cons.prems by simp_all
  from retryLoop_failure_step [OF f(3) f(1) f(2), of err acc]
  obtain w1 where 1: "retryLoop i ssr err acc w =
      retryLoop (i + 1) ssr (case f of Inl e \<Rightarrow> Some e | Inr a \<Rightarrow> None) acc w1"
    "same_outside w w1" "calls w1 = Suc (calls w)" "slept w1 = slept w + (if i = 0 then 0 else 1)"
    by blast
  have be: "backend w1 = backend w" using 1(2) by (simp add: same_outside_def)
  from Cons.IH [of w1 "i + 1" "case f of Inl e \<Rightarrow> Some e | Inr a \<Rightarrow> None"] rest f(4) be 1(3)
  obtain w' where 2:
    "retryLoop (i + 1) ssr (case f of Inl e \<Rightarrow> Some e | Inr a \<Rightarrow> None) acc w1 = (Some e, acc, w')"
    "same_outside w1 w'" "calls w' = calls w1 + length fs + 1"
    "slept w' = slept w1 + length fs + 1"
    by auto
  show ?case using 1 2 same_outside_trans [of w w1 w'] by auto
qed

lemma retryLoop_bound:
  "retryLoop i ssr err acc w = (err', acc', w') \<Longrightarrow>
   \<exists>n. n \<le> 5 - i \<and> (i < 5 \<longrightarrow> 0 < n) \<and> calls w' = calls w + n \<and>
       slept w' + (if i = 0 then 1 else 0) = slept w + n"
proof (induction i ssr err acc w rule: retryLoop.induct)
  case (1 i ssr err audioContent w)
  show ?case
  proof (cases "i < SPEECH_SYNTHESIZE_RETRY_CNT")
    case False
    with "1.prems" show ?thesis
      by (simp add: retryLoop.simps [of i] SPEECH_SYNTHESIZE_RETRY_CNT_def)
  next
    case True
    then have i5: "i < 5" by (simp add: SPEECH_SYNTHESIZE_RETRY_CNT_def)
    define w1 where "w1 = (if i > 0 then time_Sleep_Second (logf (LogRetry err i) w) else w)"
    have w1: "calls w1 = calls w" "slept w1 = slept w + (if i = 0 then 0 else 1)"
      by (simp_all add: w1_def logf_def time_Sleep_Second_def)
    obtain r w2 where call: "SynthesizeSpeech ssr w1 = (r, w2)" by (cases "SynthesizeSpeech ssr w1")
    have w2: "calls w2 = Suc (calls w)" "slept w2 = slept w + (if i = 0 then 0 else 1)"
      using call w1 by (auto simp add: call_eq)
    show ?thesis
    proof (cases r)
      case (Inl e)
      have "retryLoop (i + 1) ssr (Some e) audioContent (logf (LogErrorEncountered e) w2) = (err', acc', w')"
        using "1.prems" True call Inl by (simp add: retryLoop.simps [of i] w1_def)
      from "1.IH"(1) [OF True w1_def call [symmetric] Inl this]
      obtain n where "n \<le> 5 - (i + 1)" "calls w' = calls (logf (LogErrorEncountered e) w2) + n"
        "slept w' = slept (logf (LogErrorEncountered e) w2) + n"
        by auto
      then show ?thesis using w2 i5
        by (intro exI [of _ "Suc n"]) (auto simp add: logf_def)
    next
      case (Inr audio)
      show ?thesis
      proof (cases "length audio > 0")
        case True
        with "1.prems" \<open>i < SPEECH_SYNTHESIZE_RETRY_CNT\<close> call Inr have "w' = w2"
          by (simp add: retryLoop.simps [of i] w1_def)
        with w2 i5 show ?thesis by (intro exI [of _ 1]) auto
      next
        case False
        have "retryLoop (i + 1) ssr None audioContent w2 = (err', acc', w')"
          using "1.prems" \<open>i < SPEECH_SYNTHESIZE_RETRY_CNT\<close> call Inr False
          by (simp add: retryLoop.simps [of i] w1_def)
        from "1.IH"(2) [OF \<open>i < SPEECH_SYNTHESIZE_RETRY_CNT\<close> w1_def call [symmetric] Inr _ this] False
        obtain n where "n \<le> 5 - (i + 1)" "calls w' = calls w2 + n" "slept w' = slept w2 + n"
          by auto
        then show ?thesis using w2 i5
          by (intro exI [of _ "Suc n"]) auto
      qed
    qed
  qed
qed

lemma synthesizeAll_script:
  assumes "scripted (backend w) (calls w) reqs script"
  shows "\<exists>w'. synthesizeAll reqs acc w = (None, acc @ concat (map snd script), w') \<and>
           same_outside w w' \<and> calls w' = calls w + attempts script \<and>
           slept w' = slept w + retries script"
  using assms
proof (induction reqs arbitrary: script acc w)
  case Nil
  then show ?case by (cases script) (simp_all add: attempts_def retries_def)
next
  case (Cons ssr rest)
  then obtain fails audio more where script: "script = (fails, audio) # more"
    by (cases script) auto
  from Cons.prems script have a: "answers (backend w) (calls w) ssr (fails @ [Inr audio])"
    "list_all failure fails" "0 + length fails < 5" "audio \<noteq> []"
    and more: "scripted (backend w) (calls w + length fails + 1) rest more"
    by (simp_all add: SPEECH_SYNTHESIZE_RETRY_CNT_def)
  from retryLoop_script [OF a, of None acc]
  obtain w1 where 1: "retryLoop 0 ssr None acc w = (None, acc @ audio, w1)" "same_outside w w1"
    "calls w1 = calls w + length fails + 1" "slept w1 = slept w + length fails"
    by auto
  have "backend w1 = backend w" using 1(2) by (simp add: same_outside_def)
  with more 1(3) have "scripted (backend w1) (calls w1) rest more" by simp
  from Cons.IH [OF this, of "acc @ audio"]
  obtain w' where 2: "synthesizeAll rest (acc @ audio) w1 = (None, (acc @ audio) @ concat (map snd more), w')"
    "same_outside w1 w'" "calls w' = calls w1 + attempts more" "slept w' = slept w1 + retries more"
    by auto
  show ?case using 1 2 script same_outside_trans [of w w1 w']
    by (auto simp add: attempts_def retries_def)
qed

lemma synthesizeAll_exhausted:
  assumes "scripted (backend w) (calls w) pre script"
    and "answers (backend w) (calls w + attempts script) ssr (fails @ [Inl e])"
    and "list_all failure fails" and "length fails = 4"
  shows "\<exists>audio w'. synthesizeAll (pre @ ssr # post) acc w = (Some e, audio, w') \<and>
           same_outside w w' \<and> calls w' = calls w + attempts script + 5"
proof -
  have split: "\<And>acc w. synthesizeAll (pre @ ssr # post) acc w =
      (case synthesizeAll pre acc w of
         (Some e, r) \<Rightarrow> (Some e, r)
       | (None, acc', w') \<Rightarrow> synthesizeAll (ssr # post) acc' w')"
    by (induction pre) (auto split: option.splits prod.splits)
  from synthesizeAll_script [OF assms(1), of acc]
  obtain w1 where 1: "synthesizeAll pre acc w = (None, acc @ concat (map snd script), w1)"
    "same_outside w w1" "calls w1 = calls w + attempts script"
    by auto
  have "backend w1 = backend w" using 1(2) by (simp add: same_outside_def)
  with assms(2) 1(3) have "answers (backend w1) (calls w1) ssr (fails @ [Inl e])" by simp
  from retryLoop_exhausted [OF this assms(3), of 0 None "acc @ concat (map snd script)"] assms(4)
  obtain w' where 2: "retryLoop 0 ssr None (acc @ concat (map snd script)) w1 =
      (Some e, acc @ concat (map snd script), w')" "same_outside w1 w'"
    "calls w' = calls w1 + 5"
    by auto
  show ?thesis using 1 2 same_outside_trans [of w w1 w'] by (simp add: split)
qed

lemma logf_fields [simp]:
  "cwd (logf e w) = cwd w" "umask (logf e w) = umask w" "files (logf e w) = files w"
  "write_error (logf e w) = write_error w" "chtimes_error (logf e w) = chtimes_error w"
  "backend (logf e w) = backend w" "clock (logf e w) = clock w" "calls (logf e w) = calls w"
  "reads (logf e w) = reads w" "slept (logf e w) = slept w" "writes (logf e w) = writes w"
  "log (logf e w) = log w @ [e]"
  by (simp_all add: logf_def)

lemma paths_logf [simp]:
  "filePath cs req (logf e w) = filePath cs req w"
  "legacyFilePath req (logf e w) = legacyFilePath req w"
  by (simp_all add: filePath_def legacyFilePath_def Abs_def)

lemma shouldSkip_eq:
  "shouldSkip cs req w =
     (if files w (legacyFilePath req w) \<noteq> None
      then (True, logf (LogFileExists (legacyFilePath req w)) w)
      else if files w (filePath cs req w) \<noteq> None
      then (True, logf (LogFileExists (filePath cs req w)) w)
      else (False, w))"
  by (simp add: shouldSkip_def fileExistsAndLog_def os_Stat_ok_def)

lemma loopBody_skip:
  assumes "files w (legacyFilePath req w) \<noteq> None \<or> files w (filePath cs req w) \<noteq> None"
  shows "\<exists>w'. loopBody cs G req w = (Skipped, w') \<and> files w' = files w \<and>
           writes w' = writes w \<and> calls w' = calls w"
proof -
  define w1 where "w1 = logf (LogStartProcessing (Title (Item req))) w"
  define w2 where "w2 = snd (shouldSkip cs req w1)"
  have "fst (shouldSkip cs req w1) = True"
    using assms by (auto simp add: shouldSkip_eq w1_def)
  then have sk: "shouldSkip cs req (logf (LogStartProcessing (Title (Item req))) w) = (True, w2)"
    by (simp add: w2_def w1_def prod_eq_iff)
  have w2: "files w2 = files w" "writes w2 = writes w" "calls w2 = calls w"
    by (simp_all add: w2_def w1_def shouldSkip_eq)
  have "loopBody cs G req w = (Skipped, w2)"
    unfolding loopBody_def Let_def sk by simp
  with w2 show ?thesis by simp
qed

lemma loopBody_synthesis:
  assumes "files w (legacyFilePath req w) = None" and "files w (filePath cs req w) = None"
  shows "loopBody cs G req w =
     (case synthesizeAll (requestsOf G req) [] (logf (LogStartProcessing (Title (Item req))) w) of
        (Some e, audio, w3) \<Rightarrow> (Returned e, w3)
      | (None, audio, w3) \<Rightarrow>
          (case os_WriteFile (filePath cs req w) audio 493 w3 of
             (Some e, w4) \<Rightarrow> (Returned e, logf (LogErrWriting e) w4)
           | (None, w4) \<Rightarrow>
               (case fileTime (Item req)
                       (WriteID3Tag (filePath cs req w) (Title (Item req)) (Directory req) w4) of
                  (t, w6) \<Rightarrow>
                    (case os_Chtimes (filePath cs req w) t t w6 of
                       (Some e, w7) \<Rightarrow> (Returned e, logf (LogErr e) w7)
                     | (None, w7) \<Rightarrow>
                         (Finished,
                          logf (LogFinished (Title (Item req)) (filePath cs req w)) w7)))))"
proof -
  have sk: "shouldSkip cs req (logf (LogStartProcessing (Title (Item req))) w) =
      (False, logf (LogStartProcessing (Title (Item req))) w)"
    using assms by (simp add: shouldSkip_eq)
  show ?thesis
    unfolding loopBody_def Let_def paths_logf sk requestsOf_def by simp
qed

lemma finalize_eq:
  assumes "same_outside w w3" and "files w path = None" and "write_error w path = None"
  shows "\<exists>w'. (case os_WriteFile path audio 493 w3 of
             (Some e, w4) \<Rightarrow> (Returned e, logf (LogErrWriting e) w4)
           | (None, w4) \<Rightarrow>
               (case fileTime item (WriteID3Tag path title dir w4) of
                  (t, w6) \<Rightarrow>
                    (case os_Chtimes path t t w6 of
                       (Some e, w7) \<Rightarrow> (Returned e, logf (LogErr e) w7)
                     | (None, w7) \<Rightarrow> (Finished, logf (LogFinished title path) w7)))) =
          ((case chtimes_error w path of None \<Rightarrow> Finished | Some e \<Rightarrow> Returned e), w') \<and>
        writes w' = writes w @ [(path, audio)] \<and> calls w' = calls w3 \<and>
        slept w' = slept w3 \<and>
        files w' = (files w)(path \<mapsto>
           \<lparr>content = audio, mode = 493 AND NOT (umask w),
            mtime = (case chtimes_error w path of
                       None \<Rightarrow> utime (clock w (reads w)) (expectedTime item (clock w (reads w)))
                     | Some e \<Rightarrow> clock w (reads w)),
            atime = (case chtimes_error w path of
                       None \<Rightarrow> utime (clock w (reads w)) (expectedTime item (clock w (reads w)))
                     | Some e \<Rightarrow> clock w (reads w)),
            title_tag = Some title\<rparr>)"
proof -
  define now where "now = clock w (reads w)"
  define f0 where "f0 = \<lparr>content = audio, mode = 493 AND NOT (umask w), mtime = now,
    atime = now, title_tag = None\<rparr>"
  define w4 where "w4 = w3\<lparr>files := (files w)(path \<mapsto> f0), writes := writes w @ [(path, audio)]\<rparr>"
  define w5 where "w5 = w4\<lparr>files := (files w)(path \<mapsto> f0\<lparr>title_tag := Some title\<rparr>)\<rparr>"
  have w3: "files w3 = files w" "write_error w3 = write_error w" "umask w3 = umask w"
    "clock w3 = clock w" "reads w3 = reads w" "writes w3 = writes w"
    "chtimes_error w3 = chtimes_error w"
    using assms(1) by (simp_all add: same_outside_def)
  have wf: "os_WriteFile path audio 493 w3 = (None, w4)"
    using assms(2,3) by (simp add: os_WriteFile_def Let_def w3 w4_def f0_def now_def)
  have tag: "WriteID3Tag path title dir w4 = w5"
    by (simp add: WriteID3Tag_def w4_def w5_def)
  obtain t w6 where ft: "fileTime item w5 = (t, w6)" by (cases "fileTime item w5")
  have t: "t = expectedTime item now"
    using ft by (auto simp add: fileTime_def expectedTime_def time_Now_def now_def w5_def w4_def w3
        split: option.splits)
  have w6: "files w6 = files w5" "writes w6 = writes w5" "chtimes_error w6 = chtimes_error w5"
    "calls w6 = calls w5" "slept w6 = slept w5"
    using ft by (auto simp add: fileTime_def time_Now_def split: option.splits)
  have w5: "files w5 = (files w)(path \<mapsto> f0\<lparr>title_tag := Some title\<rparr>)"
    "writes w5 = writes w @ [(path, audio)]" "chtimes_error w5 = chtimes_error w"
    "calls w5 = calls w3" "slept w5 = slept w3"
    by (simp_all add: w5_def w4_def w3)
  show ?thesis
  proof (cases "chtimes_error w path")
    case None
    have "os_Chtimes path t t w6 =
        (None, w6\<lparr>files := (files w6)(path \<mapsto>
           f0\<lparr>title_tag := Some title, atime := utime now t, mtime := utime now t\<rparr>)\<rparr>)"
      using None by (simp add: os_Chtimes_def w6 w5 f0_def)
    then show ?thesis
      using None wf tag ft
      by (simp add: w6 w5 t f0_def now_def)
  next
    case (Some e)
    have "os_Chtimes path t t w6 = (Some e, w6)"
      using Some by (simp add: os_Chtimes_def w6 w5)
    then show ?thesis
      using Some wf tag ft
      by (simp add: w6 w5 f0_def now_def)
  qed
qed

lemma same_outside_logf_left [simp]: "same_outside (logf e w) w' = same_outside w w'"
  by (simp add: same_outside_def)

lemma loopBody_failed_synthesis:
  assumes "files w (legacyFilePath req w) = None" and "files w (filePath cs req w) = None"
    and "synthesizeAll (requestsOf G req) [] (logf (LogStartProcessing (Title (Item req))) w) =
           (Some e, audio, w3)"
  shows "loopBody cs G req w = (Returned e, w3) \<and> files w3 = files w \<and> writes w3 = writes w"
proof -
  from synthesizeAll_same_outside [OF assms(3)] have "same_outside w w3" by simp
  then show ?thesis
    using assms(3) by (simp add: loopBody_synthesis [OF assms(1,2)] same_outside_def)
qed

lemma loopBody_write_fault:
  assumes "files w (legacyFilePath req w) = None" and "files w (filePath cs req w) = None"
    and "synthesizeAll (requestsOf G req) [] (logf (LogStartProcessing (Title (Item req))) w) =
           (None, audio, w3)"
    and "write_error w (filePath cs req w) = Some e"
  shows "\<exists>w'. loopBody cs G req w = (Returned e, w') \<and> files w' = files w \<and> writes w' = writes w"
proof -
  from synthesizeAll_same_outside [OF assms(3)] have s: "same_outside w w3" by simp
  then have "os_WriteFile (filePath cs req w) audio 493 w3 = (Some e, w3)"
    using assms(4) by (simp add: os_WriteFile_def same_outside_def)
  then show ?thesis
    using assms(3) s by (simp add: loopBody_synthesis [OF assms(1,2)] same_outside_def)
qed

lemma loopBody_written:
  assumes "files w (legacyFilePath req w) = None" and "files w (filePath cs req w) = None"
    and "synthesizeAll (requestsOf G req) [] (logf (LogStartProcessing (Title (Item req))) w) =
           (None, audio, w3)"
    and "write_error w (filePath cs req w) = None"
  shows "\<exists>w'. loopBody cs G req w =
             ((case chtimes_error w (filePath cs req w) of None \<Rightarrow> Finished | Some e \<Rightarrow> Returned e),
              w') \<and>
           writes w' = writes w @ [(filePath cs req w, audio)] \<and> calls w' = calls w3 \<and>
           slept w' = slept w3 \<and>
           files w' = (files w)(filePath cs req w \<mapsto>
             \<lparr>content = audio, mode = 493 AND NOT (umask w),
              mtime = (case chtimes_error w (filePath cs req w) of
                         None \<Rightarrow> utime (clock w (reads w))
                                   (expectedTime (Item req) (clock w (reads w)))
                       | Some e \<Rightarrow> clock w (reads w)),
              atime = (case chtimes_error w (filePath cs req w) of
                         None \<Rightarrow> utime (clock w (reads w))
                                   (expectedTime (Item req) (clock w (reads w)))
                       | Some e \<Rightarrow> clock w (reads w)),
              title_tag = Some (Title (Item req))\<rparr>)"
proof -
  from synthesizeAll_same_outside [OF assms(3)] have s: "same_outside w w3" by simp
  from finalize_eq [OF s assms(2,4), where audio = audio and item = "Item req"
      and title = "Title (Item req)" and dir = "Directory req"]
  show ?thesis
    unfolding loopBody_synthesis [OF assms(1,2)] assms(3) by simp
qed


lemma loopBody_scripted:
  assumes "files w (legacyFilePath req w) = None" and "files w (filePath cs req w) = None"
    and "scripted (backend w) (calls w) (requestsOf G req) script"
    and "write_error w (filePath cs req w) = None"
  shows "\<exists>w' w3.
           synthesizeAll (requestsOf G req) [] (logf (LogStartProcessing (Title (Item req))) w) =
             (None, concat (map snd script), w3) \<and>
           same_outside w w3 \<and> calls w3 = calls w + attempts script \<and>
           slept w3 = slept w + retries script \<and>
           loopBody cs G req w =
             ((case chtimes_error w (filePath cs req w) of None \<Rightarrow> Finished | Some e \<Rightarrow> Returned e),
              w') \<and>
           writes w' = writes w @ [(filePath cs req w, concat (map snd script))] \<and>
           calls w' = calls w3 \<and>
           files w' = (files w)(filePath cs req w \<mapsto>
             \<lparr>content = concat (map snd script), mode = 493 AND NOT (umask w),
              mtime = (case chtimes_error w (filePath cs req w) of
                         None \<Rightarrow> utime (clock w (reads w))
                                   (expectedTime (Item req) (clock w (reads w)))
                       | Some e \<Rightarrow> clock w (reads w)),
              atime = (case chtimes_error w (filePath cs req w) of
                         None \<Rightarrow> utime (clock w (reads w))
                                   (expectedTime (Item req) (clock w (reads w)))
                       | Some e \<Rightarrow> clock w (reads w)),
              title_tag = Some (Title (Item req))\<rparr>)"
proof -
  define w1 where "w1 = logf (LogStartProcessing (Title (Item req))) w"
  have "scripted (backend w1) (calls w1) (requestsOf G req) script"
    using assms(3) by (simp add: w1_def)
  from synthesizeAll_script [OF this, of "[]"]
  obtain w3 where syn: "synthesizeAll (requestsOf G req) [] w1 = (None, concat (map snd script), w3)"
    and w3: "same_outside w1 w3" "calls w3 = calls w1 + attempts script"
      "slept w3 = slept w1 + retries script"
    by auto
  from loopBody_written [OF assms(1,2) syn [unfolded w1_def] assms(4)] syn w3
  show ?thesis by (auto simp add: w1_def)
qed

lemma loopBody_exhausted:
  assumes "files w (legacyFilePath req w) = None" and "files w (filePath cs req w) = None"
    and "requestsOf G req = pre @ ssr # post" and "scripted (backend w) (calls w) pre script"
    and "answers (backend w) (calls w + attempts script) ssr (fails @ [Inl e])"
    and "list_all failure fails" and "length fails = 4"
  shows "\<exists>w'. loopBody cs G req w = (Returned e, w') \<and> same_outside w w' \<and>
           calls w' = calls w + attempts script + 5"
proof -
  define w1 where "w1 = logf (LogStartProcessing (Title (Item req))) w"
  have s: "scripted (backend w1) (calls w1) pre script"
    and an: "answers (backend w1) (calls w1 + attempts script) ssr (fails @ [Inl e])"
    using assms(4,5) by (simp_all add: w1_def)
  from synthesizeAll_exhausted [OF s an assms(6,7), of post "[]"]
  obtain au w3 where syn: "synthesizeAll (pre @ ssr # post) [] w1 = (Some e, au, w3)"
    and w3: "same_outside w1 w3" "calls w3 = calls w1 + attempts script + 5"
    by auto
  from syn have "synthesizeAll (requestsOf G req) []
      (logf (LogStartProcessing (Title (Item req))) w) = (Some e, au, w3)"
    by (simp add: w1_def assms(3))
  from loopBody_failed_synthesis [OF assms(1,2) this] w3
  show ?thesis by (simp add: w1_def)
qed

lemma retryLoop_dropped:
  assumes "answers (backend w) (calls w) ssr (fails @ [Inr []])"
    and "list_all failure fails" and "i + length fails = 4"
  shows "\<exists>w'. retryLoop i ssr err acc w = (None, acc, w') \<and> same_outside w w' \<and>
           calls w' = calls w + length fails + 1 \<and>
           slept w' = slept w + length fails + (if i = 0 then 0 else 1)"
  using assms
proof (induction fails arbitrary: i err w)
  case Nil
  then have i: "i = 4" and b: "backend w (calls w) ssr = Inr []" by simp_all
  from retryLoop_failure_step [of i w ssr "Inr []" err acc] i b
  obtain w1 where 1: "retryLoop i ssr err acc w = retryLoop 5 ssr None acc w1"
    "same_outside w w1" "calls w1 = Suc (calls w)" "slept w1 = slept w + 1"
    by (auto simp add: failure_def)
  have "retryLoop 5 ssr None acc w1 = (None, acc, w1)"
    by (subst retryLoop.simps) (simp add: SPEECH_SYNTHESIZE_RETRY_CNT_def)
  with 1 i show ?case by simp
next
  case (Cons f fs)
  have f: "backend w (calls w) ssr = f" "failure f" "i < 5" "i + 1 + length fs = 4"
    and rest: "answers (backend w) (Suc (calls w)) ssr (fs @ [Inr []])" "list_all failure fs"
    using Cons.prems by simp_all
  from retryLoop_failure_step [OF f(3) f(1) f(2), of err acc]
  obtain w1 where 1: "retryLoop i ssr err acc w =
      retryLoop (i + 1) ssr (case f of Inl e \<Rightarrow> Some e | Inr a \<Rightarrow> None) acc w1"
    "same_outside w w1" "calls w1 = Suc (calls w)" "slept w1 = slept w + (if i = 0 then 0 else 1)"
    by blast
  have be: "backend w1 = backend w" using 1(2) by (simp add: same_outside_def)
  from Cons.IH [of w1 "i + 1" "case f of Inl e \<Rightarrow> Some e | Inr a \<Rightarrow> None"] rest f(4) be 1(3)
  obtain w' where 2:
    "retryLoop (i + 1) ssr (case f of Inl e \<Rightarrow> Some e | Inr a \<Rightarrow> None) acc w1 = (None, acc, w')"
    "same_outside w1 w'" "calls w' = calls w1 + length fs + 1"
    "slept w' = slept w1 + length fs + 1"
    by auto
  show ?case using 1 2 same_outside_trans [of w w1 w'] by auto
qed

lemma retryLoop_leaves:
  assumes "answers (backend w) (calls w) ssr rs" and "leaves rs"
  shows "\<exists>w'. retryLoop 0 ssr None acc w = (None, acc @ audio_of rs, w') \<and> same_outside w w' \<and>
           calls w' = calls w + length rs \<and> slept w' + 1 = slept w + length rs"
proof -
  from assms(2) have ne: "rs \<noteq> []" and fs: "list_all failure (butlast rs)"
    by (simp_all add: leaves_def)
  from ne have rs: "rs = butlast rs @ [last rs]" by simp
  from assms(2) obtain audio where l: "last rs = Inr audio"
    by (cases "last rs") (simp_all add: leaves_def)
  show ?thesis
  proof (cases "audio = []")
    case True
    with assms(2) l have len: "length rs = 5"
      by (simp add: leaves_def SPEECH_SYNTHESIZE_RETRY_CNT_def)
    then have 4: "0 + length (butlast rs) = 4" by simp
    have a: "answers (backend w) (calls w) ssr (butlast rs @ [Inr []])"
      using assms(1) rs l True by simp
    from retryLoop_dropped [OF a fs 4, of None acc] len l True
    show ?thesis by (auto simp add: audio_of_def)
  next
    case False
    with assms(2) l have len: "length rs \<le> 5"
      by (simp add: leaves_def SPEECH_SYNTHESIZE_RETRY_CNT_def)
    with ne have 4: "0 + length (butlast rs) < 5" by (cases rs) simp_all
    have a: "answers (backend w) (calls w) ssr (butlast rs @ [Inr audio])"
      using assms(1) rs l by simp
    from ne have pos: "0 < length rs" by simp
    from retryLoop_script [OF a fs 4 False, of None acc]
    obtain w' where r: "retryLoop 0 ssr None acc w = (None, acc @ audio, w')"
      and so: "same_outside w w'"
      and c: "calls w' = calls w + (length rs - 1) + 1"
      and sl: "slept w' = slept w + (length rs - 1)"
      by auto
    from c pos have c': "calls w' = calls w + length rs" by arith
    from sl pos have sl': "slept w' + 1 = slept w + length rs" by arith
    have "audio_of rs = audio" using l by (simp add: audio_of_def)
    with r so c' sl' show ?thesis by simp
  qed
qed

lemma synthesizeAll_ran:
  assumes "ran (backend w) (calls w) reqs runs"
  shows "\<exists>w'. synthesizeAll reqs acc w = (None, acc @ concat (map audio_of runs), w') \<and>
           same_outside w w' \<and> calls w' = calls w + length (concat runs) \<and>
           slept w' + length runs = slept w + length (concat runs)"
  using assms
proof (induction reqs arbitrary: runs acc w)
  case Nil
  then show ?case by (cases runs) simp_all
next
  case (Cons ssr rest)
  then obtain rs more where runs: "runs = rs # more"
    by (cases runs) auto
  from Cons.prems runs have a: "answers (backend w) (calls w) ssr rs" "leaves rs"
    and more: "ran (backend w) (calls w + length rs) rest more"
    by simp_all
  from retryLoop_leaves [OF a, of acc]
  obtain w1 where 1: "retryLoop 0 ssr None acc w = (None, acc @ audio_of rs, w1)"
    "same_outside w w1" "calls w1 = calls w + length rs" "slept w1 + 1 = slept w + length rs"
    by auto
  have "backend w1 = backend w" using 1(2) by (simp add: same_outside_def)
  with more 1(3) have "ran (backend w1) (calls w1) rest more" by simp
  from Cons.IH [OF this, of "acc @ audio_of rs"]
  obtain w' where 2: "synthesizeAll rest (acc @ audio_of rs) w1 =
      (None, (acc @ audio_of rs) @ concat (map audio_of more), w')"
    "same_outside w1 w'" "calls w' = calls w1 + length (concat more)"
    "slept w' + length more = slept w1 + length (concat more)"
    by auto
  show ?case using 1 2 runs same_outside_trans [of w w1 w'] by auto
qed

lemma synthesizeAll_ran_exhausted:
  assumes "ran (backend w) (calls w) pre runs"
    and "answers (backend w) (calls w + length (concat runs)) ssr (fails @ [Inl e])"
    and "list_all failure fails" and "length fails = 4"
  shows "\<exists>audio w'. synthesizeAll (pre @ ssr # post) acc w = (Some e, audio, w') \<and>
           same_outside w w' \<and> calls w' = calls w + length (concat runs) + 5"
proof -
  have split: "\<And>acc w. synthesizeAll (pre @ ssr # post) acc w =
      (case synthesizeAll pre acc w of
         (Some e, r) \<Rightarrow> (Some e, r)
       | (None, acc', w') \<Rightarrow> synthesizeAll (ssr # post) acc' w')"
    by (induction pre) (auto split: option.splits prod.splits)
  from synthesizeAll_ran [OF assms(1), of acc]
  obtain w1 where 1: "synthesizeAll pre acc w = (None, acc @ concat (map audio_of runs), w1)"
    "same_outside w w1" "calls w1 = calls w + length (concat runs)"
    by auto
  have "backend w1 = backend w" using 1(2) by (simp add: same_outside_def)
  with assms(2) 1(3) have "answers (backend w1) (calls w1) ssr (fails @ [Inl e])" by simp
  from retryLoop_exhausted [OF this assms(3), of 0 None "acc @ concat (map audio_of runs)"] assms(4)
  obtain w' where 2: "retryLoop 0 ssr None (acc @ concat (map audio_of runs)) w1 =
      (Some e, acc @ concat (map audio_of runs), w')" "same_outside w1 w'"
    "calls w' = calls w1 + 5"
    by auto
  show ?thesis using 1 2 same_outside_trans [of w w1 w'] by (simp add: split)
qed

lemma loopBody_ran:
  assumes "files w (legacyFilePath req w) = None" and "files w (filePath cs req w) = None"
    and "ran (backend w) (calls w) (requestsOf G req) runs"
    and "write_error w (filePath cs req w) = None"
  shows "\<exists>w'. loopBody cs G req w =
             ((case chtimes_error w (filePath cs req w) of None \<Rightarrow> Finished | Some e \<Rightarrow> Returned e),
              w') \<and>
           writes w' = writes w @ [(filePath cs req w, concat (map audio_of runs))] \<and>
           calls w' = calls w + length (concat runs) \<and>
           slept w' + length runs = slept w + length (concat runs) \<and>
           map_option content (files w' (filePath cs req w)) = Some (concat (map audio_of runs))"
proof -
  define w1 where "w1 = logf (LogStartProcessing (Title (Item req))) w"
  have "ran (backend w1) (calls w1) (requestsOf G req) runs"
    using assms(3) by (simp add: w1_def)
  from synthesizeAll_ran [OF this, of "[]"]
  obtain w3 where syn: "synthesizeAll (requestsOf G req) [] w1 =
      (None, concat (map audio_of runs), w3)"
    and w3: "same_outside w1 w3" "calls w3 = calls w1 + length (concat runs)"
      "slept w3 + length runs = slept w1 + length (concat runs)"
    by auto
  from loopBody_written [OF assms(1,2) syn [unfolded w1_def] assms(4)]
  obtain w' where w': "loopBody cs G req w =
      ((case chtimes_error w (filePath cs req w) of None \<Rightarrow> Finished | Some e \<Rightarrow> Returned e), w')"
    "writes w' = writes w @ [(filePath cs req w, concat (map audio_of runs))]"
    "calls w' = calls w3" "slept w' = slept w3"
    "map_option content (files w' (filePath cs req w)) = Some (concat (map audio_of runs))"
    by auto
  with w' w3 show ?thesis by (simp add: w1_def)
qed

lemma loopBody_ran_exhausted:
  assumes "files w (legacyFilePath req w) = None" and "files w (filePath cs req w) = None"
    and "requestsOf G req = pre @ ssr # post" and "ran (backend w) (calls w) pre runs"
    and "answers (backend w) (calls w + length (concat runs)) ssr (fails @ [Inl e])"
    and "list_all failure fails" and "length fails = 4"
  shows "\<exists>w'. loopBody cs G req w = (Returned e, w') \<and> same_outside w w' \<and>
           calls w' = calls w + length (concat runs) + 5"
proof -
  define w1 where "w1 = logf (LogStartProcessing (Title (Item req))) w"
  have s: "ran (backend w1) (calls w1) pre runs"
    and an: "answers (backend w1) (calls w1 + length (concat runs)) ssr (fails @ [Inl e])"
    using assms(4,5) by (simp_all add: w1_def)
  from synthesizeAll_ran_exhausted [OF s an assms(6,7), of post "[]"]
  obtain au w3 where syn: "synthesizeAll (pre @ ssr # post) [] w1 = (Some e, au, w3)"
    and w3: "same_outside w1 w3" "calls w3 = calls w1 + length (concat runs) + 5"
    by auto
  from syn have "synthesizeAll (requestsOf G req) []
      (logf (LogStartProcessing (Title (Item req))) w) = (Some e, au, w3)"
    by (simp add: w1_def assms(3))
  from loopBody_failed_synthesis [OF assms(1,2) this] w3
  show ?thesis by (simp add: w1_def)
qed

lemma loopBody_outcome:
  "fst (loopBody cs G req w) =
     (if files w (legacyFilePath req w) \<noteq> None \<or> files w (filePath cs req w) \<noteq> None
      then Skipped
      else case fst (synthesizeAll (requestsOf G req) []
                       (logf (LogStartProcessing (Title (Item req))) w)) of
             Some e \<Rightarrow> Returned e
           | None \<Rightarrow>
               (case write_error w (filePath cs req w) of
                  Some e \<Rightarrow> Returned e
                | None \<Rightarrow>
                    (case chtimes_error w (filePath cs req w) of
                       Some e \<Rightarrow> Returned e
                     | None \<Rightarrow> Finished)))"
proof (cases "files w (legacyFilePath req w) \<noteq> None \<or> files w (filePath cs req w) \<noteq> None")
  case True
  from loopBody_skip [OF True, of G] True show ?thesis by auto
next
  case False
  then have ns: "files w (legacyFilePath req w) = None" "files w (filePath cs req w) = None"
    by simp_all
  obtain err audio w3 where syn: "synthesizeAll (requestsOf G req) []
      (logf (LogStartProcessing (Title (Item req))) w) = (err, audio, w3)"
    by (cases "synthesizeAll (requestsOf G req) [] (logf (LogStartProcessing (Title (Item req))) w)")
  show ?thesis
  proof (cases err)
    case (Some e)
    with loopBody_failed_synthesis [OF ns, of G e audio w3] syn ns show ?thesis by simp
  next
    case None
    note err = None
    show ?thesis
    proof (cases "write_error w (filePath cs req w)")
      case (Some e)
      with loopBody_write_fault [OF ns, of G audio w3 e] syn err ns show ?thesis by auto
    next
      case None
      with loopBody_written [OF ns, of G audio w3] syn err ns show ?thesis by auto
    qed
  qed
qed

lemma processSpeechGeneration_left:
  "length (fst (snd (processSpeechGeneration cs G items w))) \<le> length items \<and>
   (fst (processSpeechGeneration cs G items w) = None \<longrightarrow>
      fst (snd (processSpeechGeneration cs G items w)) = []) \<and>
   (fst (processSpeechGeneration cs G items w) \<noteq> None \<longrightarrow>
      length (fst (snd (processSpeechGeneration cs G items w))) < length items)"
proof (induction items arbitrary: w)
  case Nil
  then show ?case by simp
next
  case (Cons item rest)
  obtain out w' where b: "loopBody cs G item w = (out, w')" by (cases "loopBody cs G item w")
  show ?case
  proof (cases out)
    case (Returned e)
    with b show ?thesis by simp
  next
    case Skipped
    with b Cons.IH [of w'] show ?thesis by auto
  next
    case Finished
    with b Cons.IH [of w'] show ?thesis by auto
  qed
qed

lemma processSpeechGeneration_proceeds:
  "processSpeechGeneration cs G (req # rest) w =
     processSpeechGeneration cs G rest (snd (loopBody cs G req w)) \<longleftrightarrow>
   fst (loopBody cs G req w) = Skipped \<or> fst (loopBody cs G req w) = Finished"
proof -
  obtain out w' where b: "loopBody cs G req w = (out, w')" by (cases "loopBody cs G req w")
  show ?thesis
  proof (cases out)
    case (Returned e)
    have "processSpeechGeneration cs G rest w' \<noteq> (Some e, rest, w')"
    proof
      assume eq: "processSpeechGeneration cs G rest w' = (Some e, rest, w')"
      with processSpeechGeneration_left [of cs G rest w'] show False by simp
    qed
    with b Returned show ?thesis by simp
  next
    case Skipped
    with b show ?thesis by simp
  next
    case Finished
    with b show ?thesis by simp
  qed
qed

section \<open>Properties of the identifier\<close>

lemma EncodeToString_append:
  "EncodeToString (a @ b) = EncodeToString a @ EncodeToString b"
  by (induction a) simp_all

lemma length_EncodeToString: "length (EncodeToString a) = 2 * length a"
  by (induction a) simp_all

lemma hashString_long:
  assumes "25 \<le> length title"
  shows "hashString checkSum title = EncodeToString (bytes (take 25 title))"
proof -
  define hs where "hs = EncodeToString (bytes title @ checkSum [])"
  have split: "bytes title = bytes (take 25 title) @ bytes (drop 25 title)"
    unfolding bytes_def by (simp flip: map_append)
  have len: "length (EncodeToString (bytes (take 25 title))) = 50"
    using assms by (simp add: length_EncodeToString bytes_def)
  have hs: "hs = EncodeToString (bytes (take 25 title)) @
      (EncodeToString (bytes (drop 25 title)) @ EncodeToString (checkSum []))"
    unfolding hs_def by (subst split) (simp add: EncodeToString_append)
  have "hashString checkSum title = (if length hs > 50 then take 50 hs else hs)"
    by (simp add: hashString_def md5_Sum_def md5_New_def Let_def hs_def)
  also have "\<dots> = take 50 hs"
    by simp
  also have "\<dots> = EncodeToString (bytes (take 25 title))"
    unfolding hs using len by simp
  finally show ?thesis .
qed

section \<open>Properties of the producer\<close>

lemma isInRange_Some:
  "isInRange (Some t) since w =
     (Inr (Hours (Sub (clock w (reads w)) t) \<le> since), w\<lparr>reads := Suc (reads w)\<rparr>)"
  by (simp add: isInRange_def time_Since_def time_Now_def)

lemma enqueueItems_total:
  assumes "\<forall>item\<in>set items. PublishedParsed item \<noteq> None"
    and "itemCnt + int (length items) \<le> n"
  shows "\<exists>w'. enqueueItems config lang dir n items itemCnt ch w =
           (None,
            ch @ map (\<lambda>(k, item). requestFor config lang dir item)
                   (filter (withinWindow config (clock w)) (enumerate (reads w) items)),
            w') \<and>
         clock w' = clock w \<and> reads w' = reads w + length items"
  using assms
proof (induction items arbitrary: itemCnt ch w)
  case Nil
  then show ?case by simp
next
  case (Cons item rest)
  from Cons.prems(1) obtain t where t: "PublishedParsed item = Some t" by auto
  define w1 where "w1 = w\<lparr>reads := Suc (reads w)\<rparr>"
  have w1: "clock w1 = clock w" "reads w1 = Suc (reads w)" by (simp_all add: w1_def)
  have rest: "\<forall>item\<in>set rest. PublishedParsed item \<noteq> None" using Cons.prems(1) by simp
  have cnt: "itemCnt < n" "itemCnt + 1 + int (length rest) \<le> n" "itemCnt + int (length rest) \<le> n"
    using Cons.prems(2) by simp_all
  show ?case
  proof (cases "Hours (Sub (clock w (reads w)) t) \<le> ItemSince config")
    case True
    define w2 where "w2 = logf (LogAddingItem (Title item)) w1"
    have w2: "clock w2 = clock w" "reads w2 = Suc (reads w)" by (simp_all add: w2_def w1)
    have step: "enqueueItems config lang dir n (item # rest) itemCnt ch w =
        enqueueItems config lang dir n rest (itemCnt + 1) (ch @ [requestFor config lang dir item]) w2"
      using True cnt(1) by (simp add: t isInRange_Some requestFor_def w1_def w2_def)
    from Cons.IH [OF rest cnt(2), of "ch @ [requestFor config lang dir item]" w2]
    obtain w' where "enqueueItems config lang dir n rest (itemCnt + 1)
          (ch @ [requestFor config lang dir item]) w2 =
        (None, (ch @ [requestFor config lang dir item]) @
            map (\<lambda>(k, item). requestFor config lang dir item)
              (filter (withinWindow config (clock w2)) (enumerate (reads w2) rest)), w')"
      "clock w' = clock w2" "reads w' = reads w2 + length rest"
      by blast
    then show ?thesis using True step w2 by (simp add: withinWindow_def t)
  next
    case False
    have step: "enqueueItems config lang dir n (item # rest) itemCnt ch w =
        enqueueItems config lang dir n rest itemCnt ch w1"
      using False by (simp add: t isInRange_Some w1_def)
    from Cons.IH [OF rest cnt(3), of ch w1]
    obtain w' where "enqueueItems config lang dir n rest itemCnt ch w1 =
        (None, ch @ map (\<lambda>(k, item). requestFor config lang dir item)
              (filter (withinWindow config (clock w1)) (enumerate (reads w1) rest)), w')"
      "clock w' = clock w1" "reads w' = reads w1 + length rest"
      by blast
    then show ?thesis using False step w1 by (simp add: withinWindow_def t)
  qed
qed

lemma enqueueItems_nil:
  assumes "\<exists>item\<in>set items. PublishedParsed item = None"
  shows "fst (enqueueItems config lang dir n items itemCnt ch w) = Some NilPointerDereference"
  using assms
proof (induction items arbitrary: itemCnt ch w)
  case Nil
  then show ?case by simp
next
  case (Cons item rest)
  show ?case
  proof (cases "PublishedParsed item")
    case None
    then show ?thesis by (simp add: isInRange_def)
  next
    case (Some t)
    with Cons.prems have "\<exists>item\<in>set rest. PublishedParsed item = None" by auto
    from Cons.IH [OF this] show ?thesis by (simp add: Some isInRange_Some)
  qed
qed

lemma enqueueItems_language:
  "\<exists>new. fst (snd (enqueueItems config lang dir n items itemCnt ch w)) = ch @ new \<and>
     (\<forall>r\<in>set new. LanguageCode r = lang)"
proof (induction items arbitrary: itemCnt ch w)
  case Nil
  then show ?case by simp
next
  case (Cons item rest)
  show ?case
  proof (cases "PublishedParsed item")
    case None
    then show ?thesis by (simp add: isInRange_def)
  next
    case (Some t)
    define r where "r = requestFor config lang dir item"
    define w1 where "w1 = w\<lparr>reads := Suc (reads w)\<rparr>"
    show ?thesis
    proof (cases "Hours (Sub (clock w (reads w)) t) \<le> ItemSince config \<and> itemCnt < n")
      case True
      from Cons.IH [of "itemCnt + 1" "ch @ [r]" "logf (LogAddingItem (Title item)) w1"]
      obtain new where "fst (snd (enqueueItems config lang dir n rest (itemCnt + 1) (ch @ [r])
          (logf (LogAddingItem (Title item)) w1))) = (ch @ [r]) @ new"
        "\<forall>r\<in>set new. LanguageCode r = lang"
        by blast
      then show ?thesis using True
        by (intro exI [of _ "r # new"])
          (simp add: Some isInRange_Some r_def requestFor_def w1_def)
    next
      case False
      have "enqueueItems config lang dir n (item # rest) itemCnt ch w =
          enqueueItems config lang dir n rest itemCnt ch w1"
        using False by (auto simp add: Some isInRange_Some w1_def)
      with Cons.IH [of itemCnt ch w1] show ?thesis by simp
    qed
  qed
qed

lemma itemSize_min: "itemSize a b = min a b"
  by (simp add: itemSize_def min_def)

lemma CreateSpeechFromItems_eq:
  "CreateSpeechFromItems config channel feed directory w =
     (if MaxItemPerFeed config < 0
      then (Some SliceBoundsOutOfRange, channel, logf (LogFeedTitle (Feed_Title feed)) w)
      else enqueueItems config (feedLanguage (Language feed)) directory
             (min (int (length (Items feed))) (MaxItemPerFeed config))
             (considered config feed) 0 channel (logf (LogFeedTitle (Feed_Title feed)) w))"
  by (auto simp add: CreateSpeechFromItems_def Let_def itemSize_min considered_def min_def)

lemma length_considered:
  "0 \<le> MaxItemPerFeed config \<Longrightarrow>
   int (length (considered config feed)) = min (int (length (Items feed))) (MaxItemPerFeed config)"
  by (auto simp add: considered_def min_def)

lemma Contains_pair:
  "Contains s [x, y] \<longleftrightarrow> (\<exists>u v. s = u @ x # y # v)"
proof (induction s)
  case Nil
  then show ?case by simp
next
  case (Cons c s)
  have hp: "HasPrefix (c # s) [x, y] \<longleftrightarrow> (\<exists>v. c # s = x # y # v)"
    by (cases s) auto
  show ?case
  proof
    assume "Contains (c # s) [x, y]"
    then consider "HasPrefix (c # s) [x, y]" | "Contains s [x, y]" by auto
    then show "\<exists>u v. c # s = u @ x # y # v"
    proof cases
      case 1
      with hp obtain v where "c # s = [] @ x # y # v" by auto
      then show ?thesis by blast
    next
      case 2
      with Cons.IH obtain u v where "s = u @ x # y # v" by blast
      then have "c # s = (c # u) @ x # y # v" by simp
      then show ?thesis by blast
    qed
  next
    assume "\<exists>u v. c # s = u @ x # y # v"
    then obtain u v where uv: "c # s = u @ x # y # v" by blast
    show "Contains (c # s) [x, y]"
    proof (cases u)
      case Nil
      with uv hp show ?thesis by auto
    next
      case (Cons a u')
      with uv have "s = u' @ x # y # v" by simp
      with Cons.IH show ?thesis by auto
    qed
  qed
qed

lemma toLower_z: "toLower c = CHR ''z'' \<longleftrightarrow> c = CHR ''z'' \<or> c = CHR ''Z''"
  by (auto simp add: toLower_def split: if_splits)

lemma toLower_h: "toLower c = CHR ''h'' \<longleftrightarrow> c = CHR ''h'' \<or> c = CHR ''H''"
  by (auto simp add: toLower_def split: if_splits)

lemma Contains_ToLower_zh:
  "Contains (ToLower lang) ''zh'' \<longleftrightarrow>
     (\<exists>u a b v. lang = u @ a # b # v \<and> a \<in> {CHR ''z'', CHR ''Z''} \<and> b \<in> {CHR ''h'', CHR ''H''})"
proof -
  have "Contains (ToLower lang) ''zh'' \<longleftrightarrow> (\<exists>u v. map toLower lang = u @ CHR ''z'' # CHR ''h'' # v)"
    by (simp add: Contains_pair ToLower_def)
  also have "\<dots> \<longleftrightarrow> (\<exists>u a b v. lang = u @ a # b # v \<and> toLower a = CHR ''z'' \<and> toLower b = CHR ''h'')"
  proof
    assume "\<exists>u v. map toLower lang = u @ CHR ''z'' # CHR ''h'' # v"
    then obtain u v where "map toLower lang = u @ CHR ''z'' # CHR ''h'' # v" by blast
    then obtain u' r where r: "lang = u' @ r" "map toLower r = CHR ''z'' # CHR ''h'' # v"
      by (auto simp add: map_eq_append_conv)
    then obtain a b v' where "r = a # b # v'" "toLower a = CHR ''z''" "toLower b = CHR ''h''"
      by (auto simp add: map_eq_Cons_conv)
    with r show "\<exists>u a b v. lang = u @ a # b # v \<and> toLower a = CHR ''z'' \<and> toLower b = CHR ''h''"
      by blast
  next
    assume "\<exists>u a b v. lang = u @ a # b # v \<and> toLower a = CHR ''z'' \<and> toLower b = CHR ''h''"
    then obtain u a b v where "lang = u @ a # b # v" "toLower a = CHR ''z''" "toLower b = CHR ''h''"
      by blast
    then have "map toLower lang = map toLower u @ CHR ''z'' # CHR ''h'' # map toLower v" by simp
    then show "\<exists>u v. map toLower lang = u @ CHR ''z'' # CHR ''h'' # v" by blast
  qed
  finally show ?thesis by (simp add: toLower_z toLower_h)
qed

section \<open>Runs on the example data\<close>

lemma hashString_A: "hashString checkSum_empty ''A'' = ''41d41d8cd98f00b204e9800998ecf8427e''"
  by (simp add: hashString_def md5_Sum_def md5_New_def checkSum_empty_def md5_of_nothing_def
      bytes_def hextable_def)

lemma filePath_A: "cwd w = ''/srv'' \<Longrightarrow> filePath checkSum_empty request_A w = path_A"
  by (simp add: filePath_def request_A_def requestFor_def item_A_def hashString_A Abs_def
      Clean_def IsAbs_def cleanStep_def path_A_def)

lemma legacyFilePath_A: "cwd w = ''/srv'' \<Longrightarrow> legacyFilePath request_A w = ''/srv/A.mp3''"
  by (simp add: legacyFilePath_def request_A_def requestFor_def item_A_def Abs_def Join_def
      Clean_def IsAbs_def cleanStep_def ReplaceAll_def)

lemma requestsOf_A: "requestsOf two_chunks request_A = [''A'', ''<p>Hello</p>'']"
  by (simp add: requestsOf_def two_chunks_def request_A_def requestFor_def item_A_def)

lemma requestsOf_B: "requestsOf two_chunks request_B = [''B'', ''<p>Old</p>'']"
  by (simp add: requestsOf_def two_chunks_def request_B_def requestFor_def item_B_def)

lemma example_world_fields:
  "cwd example_world = ''/srv''" "files example_world = Map.empty" "calls example_world = 0"
  "write_error example_world = (\<lambda>p. None)" "chtimes_error example_world = (\<lambda>p. None)"
  "umask example_world = 18" "reads example_world = 0" "writes example_world = []"
  "clock example_world = (\<lambda>k. 3600000000000000 + int k)" "slept example_world = 0"
  "backend example_world = (\<lambda>k ssr. if k < 4 then Inl (Error ''unavailable'') else Inr (bytes ssr))"
  by (simp_all add: example_world_def)

lemma failing_world_fields:
  "cwd failing_world = ''/srv''" "files failing_world = Map.empty" "calls failing_world = 0"
  "write_error failing_world = (\<lambda>p. None)" "chtimes_error failing_world = (\<lambda>p. None)"
  "umask failing_world = 18" "reads failing_world = 0" "writes failing_world = []"
  "clock failing_world = (\<lambda>k. 3600000000000000 + int k)" "slept failing_world = 0"
  "backend failing_world = (\<lambda>k ssr. if k < 5 then Inl (Error ''unavailable'') else Inr (bytes ssr))"
  by (simp_all add: failing_world_def example_world_def)

lemma scripted_A: "scripted (backend example_world) (calls example_world)
    (requestsOf two_chunks request_A) script_A"
  by (simp add: requestsOf_A script_A_def example_world_fields failure_def bytes_def
      SPEECH_SYNTHESIZE_RETRY_CNT_def numeral_eq_Suc)

lemma failures_4: "list_all failure (replicate 4 (Inl (Error ''unavailable'')))"
  by (simp add: list_all_iff failure_def)

lemma exhausted_A:
  "\<exists>w'. loopBody checkSum_empty two_chunks request_A failing_world =
          (Returned (Error ''unavailable''), w') \<and>
        same_outside failing_world w' \<and> calls w' = 5"
proof -
  have a: "answers (backend failing_world) (calls failing_world + attempts [])
      ''A'' (replicate 4 (Inl (Error ''unavailable'')) @ [Inl (Error ''unavailable'')])"
    by (simp add: failing_world_fields attempts_def numeral_eq_Suc)
  from loopBody_exhausted [of failing_world request_A checkSum_empty two_chunks "[]"
      "''A''" "[''<p>Hello</p>'']" "[]" "replicate 4 (Inl (Error ''unavailable''))"
      "Error ''unavailable''", OF _ _ _ _ a failures_4]
  show ?thesis
    by (simp add: failing_world_fields requestsOf_A attempts_def)
qed

lemma utime_in_range:
  "t \<noteq> zero_Time \<Longrightarrow> - (2 ^ 63) \<le> t \<Longrightarrow> t < 2 ^ 63 \<Longrightarrow> utime old t = t"
  by (simp add: utime_def UnixNano_def int64_def signed_take_bit_int_eq_self)

lemma utime_A: "utime old 3596400000000000 = 3596400000000000"
  by (rule utime_in_range) (simp_all add: zero_Time_def)

lemma finished_A:
  "\<exists>w'. loopBody checkSum_empty two_chunks request_A example_world = (Finished, w') \<and>
        writes w' = [(path_A, bytes ''A<p>Hello</p>'')] \<and> calls w' = 6 \<and>
        files w' = [path_A \<mapsto>
          \<lparr>content = bytes ''A<p>Hello</p>'', mode = 493, mtime = 3596400000000000,
           atime = 3596400000000000, title_tag = Some ''A''\<rparr>]"
proof -
  have p: "filePath checkSum_empty request_A example_world = path_A"
    by (simp add: filePath_A example_world_fields)
  have e: "expectedTime (Item request_A) (clock example_world (reads example_world)) =
      3596400000000000"
    by (simp add: expectedTime_def request_A_def requestFor_def item_A_def)
  have t: "Title (Item request_A) = ''A''"
    by (simp add: request_A_def requestFor_def item_A_def)
  from loopBody_scripted [of example_world request_A checkSum_empty two_chunks script_A,
      OF _ _ scripted_A]
  obtain w' where "loopBody checkSum_empty two_chunks request_A example_world = (Finished, w')"
    "writes w' = [(path_A, concat (map snd script_A))]"
    "calls w' = attempts script_A"
    "files w' = [path_A \<mapsto>
          \<lparr>content = concat (map snd script_A), mode = 493 AND NOT 18, mtime = 3596400000000000,
           atime = 3596400000000000, title_tag = Some ''A''\<rparr>]"
    unfolding p e t by (auto simp add: example_world_fields utime_A)
  then show ?thesis
    by (simp add: script_A_def attempts_def bytes_def)
qed

lemma unprocessed_B:
  assumes "same_outside failing_world w" and "calls w = 5"
  shows "fst (loopBody checkSum_empty two_chunks request_B w) = Finished"
proof -
  have f: "cwd w = ''/srv''" "files w = Map.empty" "write_error w = (\<lambda>p. None)"
    "chtimes_error w = (\<lambda>p. None)"
    "backend w = (\<lambda>k ssr. if k < 5 then Inl (Error ''unavailable'') else Inr (bytes ssr))"
    using assms(1) by (simp_all add: same_outside_def failing_world_fields)
  have s: "scripted (backend w) (calls w) (requestsOf two_chunks request_B)
      [([], bytes ''B''), ([], bytes ''<p>Old</p>'')]"
    by (simp add: f assms(2) requestsOf_B bytes_def SPEECH_SYNTHESIZE_RETRY_CNT_def)
  from loopBody_scripted [of w request_B checkSum_empty two_chunks, OF _ _ s]
  show ?thesis by (auto simp add: f)
qed


lemma ran_A:
  "ran (\<lambda>k ssr. if k < 4 then Inl (Error ''unavailable'') else Inr (bytes ssr)) 0
     [''A'', ''<p>Hello</p>'']
     [replicate 4 (Inl (Error ''unavailable'')) @ [Inr (bytes ''A'')], [Inr (bytes ''<p>Hello</p>'')]]"
  by (simp add: leaves_def failure_def bytes_def SPEECH_SYNTHESIZE_RETRY_CNT_def numeral_eq_Suc)

lemma ran_mute:
  "ran (\<lambda>k ssr. Inr []) 0 [''A'', ''<p>Hello</p>''] [replicate 5 (Inr []), replicate 5 (Inr [])]"
  by (simp add: leaves_def failure_def SPEECH_SYNTHESIZE_RETRY_CNT_def numeral_eq_Suc)

lemma ran_fading:
  "ran (\<lambda>k ssr. if k < 4 then Inl (Error ''unavailable'') else Inr []) 0
     [''A'', ''<p>Hello</p>'']
     [replicate 4 (Inl (Error ''unavailable'')) @ [Inr []], replicate 5 (Inr [])]"
  by (simp add: leaves_def failure_def SPEECH_SYNTHESIZE_RETRY_CNT_def numeral_eq_Suc)

lemma other_world_fields:
  "cwd mute_world = ''/srv''" "files mute_world = Map.empty" "calls mute_world = 0"
  "write_error mute_world = (\<lambda>p. None)" "chtimes_error mute_world = (\<lambda>p. None)"
  "writes mute_world = []" "slept mute_world = 0" "backend mute_world = (\<lambda>k ssr. Inr [])"
  "cwd fading_world = ''/srv''" "files fading_world = Map.empty" "calls fading_world = 0"
  "write_error fading_world = (\<lambda>p. None)" "chtimes_error fading_world = (\<lambda>p. None)"
  "writes fading_world = []" "slept fading_world = 0"
  "backend fading_world = (\<lambda>k ssr. if k < 4 then Inl (Error ''unavailable'') else Inr [])"
  "cwd frozen_world = ''/srv''" "files frozen_world = Map.empty" "calls frozen_world = 0"
  "write_error frozen_world = (\<lambda>p. None)"
  "chtimes_error frozen_world = (\<lambda>p. Some (Error ''operation not permitted''))"
  "backend frozen_world = (\<lambda>k ssr. if k < 4 then Inl (Error ''unavailable'') else Inr (bytes ssr))"
  "cwd readonly_world = ''/srv''" "files readonly_world = Map.empty" "calls readonly_world = 0"
  "write_error readonly_world = (\<lambda>p. Some (Error ''read-only file system''))"
  "backend readonly_world = (\<lambda>k ssr. if k < 4 then Inl (Error ''unavailable'') else Inr (bytes ssr))"
  by (simp_all add: mute_world_def fading_world_def frozen_world_def readonly_world_def
      example_world_def)




lemma finished_mute:
  "\<exists>w'. loopBody checkSum_empty two_chunks request_A mute_world = (Finished, w') \<and>
        writes w' = [(path_A, [])] \<and> calls w' = 10 \<and> slept w' = 8 \<and>
        map_option content (files w' path_A) = Some []"
  using loopBody_ran [of mute_world request_A checkSum_empty two_chunks
      "[replicate 5 (Inr []), replicate 5 (Inr [])]"] ran_mute
  by (auto simp add: other_world_fields filePath_A legacyFilePath_A requestsOf_A audio_of_def)

lemma finished_fading:
  "\<exists>w'. loopBody checkSum_empty two_chunks request_A fading_world = (Finished, w') \<and>
        writes w' = [(path_A, [])] \<and> calls w' = 10 \<and> slept w' = 8 \<and>
        map_option content (files w' path_A) = Some []"
  using loopBody_ran [of fading_world request_A checkSum_empty two_chunks
      "[replicate 4 (Inl (Error ''unavailable'')) @ [Inr []], replicate 5 (Inr [])]"] ran_fading
  by (auto simp add: other_world_fields filePath_A legacyFilePath_A requestsOf_A audio_of_def)

lemmas float64_eval =
  float64_def exponent2_def scale2_def round_half_even_def quo_def rem_def Sub_def
  minDuration_def maxDuration_def Let_def

lemma Hours_A: "Hours (Sub 3600000000000000 3596400000000000) = 1"
  by (simp add: Hours_def float64_eval)

lemma Hours_B: "Hours (Sub 3600000000000001 3340800000000000) = 72 + 20 / 2 ^ 46"
  by (simp add: Hours_def float64_eval)

lemma example_channel:
  "fst (snd (CreateSpeechFromItems example_config [] example_feed ''/out'' example_world)) =
     [requestFor example_config (feedLanguage ''zh-TW'') ''/out'' item_A]"
  by (simp add: CreateSpeechFromItems_eq considered_def example_feed_def example_config_def
      item_A_def item_B_def isInRange_Some Hours_A Hours_B example_world_def logf_def
      requestFor_def)

section \<open>The claims\<close>

text \<open>
  C1, on the code. The retry loop tries again after an empty payload as it does after an
  error, but it leaves with the \<open>err\<close> of its last call, which is nil after an empty
  payload. A backend that fails on all five attempts of each sub-request by answering
  with no audio (\<open>mute_world\<close>), or that refuses four calls and then answers so
  (\<open>fading_world\<close>), therefore gives no terminal error: after ten calls and eight sleeps
  the item is \<open>Finished\<close>, and its file is written, empty, at its path.
\<close>

theorem empty_payloads_pass:
  "backend mute_world 0 ''A'' = Inr [] \<and>
   fst (retryLoop 0 ''A'' None [] mute_world) = None \<and>
   calls (snd (snd (retryLoop 0 ''A'' None [] mute_world))) = 5 \<and>
   fst (loopBody checkSum_empty two_chunks request_A mute_world) = Finished \<and>
   calls (snd (loopBody checkSum_empty two_chunks request_A mute_world)) = 10 \<and>
   slept (snd (loopBody checkSum_empty two_chunks request_A mute_world)) = 8 \<and>
   writes (snd (loopBody checkSum_empty two_chunks request_A mute_world)) = [(path_A, [])] \<and>
   map_option content
     (files (snd (loopBody checkSum_empty two_chunks request_A mute_world)) path_A) = Some [] \<and>
   fst (loopBody checkSum_empty two_chunks request_A fading_world) = Finished \<and>
   writes (snd (loopBody checkSum_empty two_chunks request_A fading_world)) = [(path_A, [])] \<and>
   map_option content
     (files (snd (loopBody checkSum_empty two_chunks request_A fading_world)) path_A) = Some []"
proof -
  have a: "answers (backend mute_world) (calls mute_world) ''A'' (replicate 4 (Inr []) @ [Inr []])"
    by (simp add: other_world_fields numeral_eq_Suc)
  have f: "list_all failure (replicate 4 (Inr []))"
    by (simp add: list_all_iff failure_def)
  from retryLoop_dropped [OF a f, of 0 None "[]"]
  obtain w1 where "retryLoop 0 ''A'' None [] mute_world = (None, [], w1)" "calls w1 = 5"
    by (auto simp add: other_world_fields)
  then have one: "fst (retryLoop 0 ''A'' None [] mute_world) = None \<and>
      calls (snd (snd (retryLoop 0 ''A'' None [] mute_world))) = 5"
    by simp
  from finished_mute obtain w2 where
    "loopBody checkSum_empty two_chunks request_A mute_world = (Finished, w2)"
    "writes w2 = [(path_A, [])]" "calls w2 = 10" "slept w2 = 8"
    "map_option content (files w2 path_A) = Some []"
    by blast
  then have two: "fst (loopBody checkSum_empty two_chunks request_A mute_world) = Finished \<and>
      calls (snd (loopBody checkSum_empty two_chunks request_A mute_world)) = 10 \<and>
      slept (snd (loopBody checkSum_empty two_chunks request_A mute_world)) = 8 \<and>
      writes (snd (loopBody checkSum_empty two_chunks request_A mute_world)) = [(path_A, [])] \<and>
      map_option content
        (files (snd (loopBody checkSum_empty two_chunks request_A mute_world)) path_A) = Some []"
    by simp
  from finished_fading obtain w3 where
    "loopBody checkSum_empty two_chunks request_A fading_world = (Finished, w3)"
    "writes w3 = [(path_A, [])]" "map_option content (files w3 path_A) = Some []"
    by blast
  then have three: "fst (loopBody checkSum_empty two_chunks request_A fading_world) = Finished \<and>
      writes (snd (loopBody checkSum_empty two_chunks request_A fading_world)) = [(path_A, [])] \<and>
      map_option content
        (files (snd (loopBody checkSum_empty two_chunks request_A fading_world)) path_A) = Some []"
    by simp
  from one two three show ?thesis by (simp add: other_world_fields)
qed

text \<open>
  C2, as stated, fails. With a backend that refuses the first five calls and a channel
  holding the requests for \<open>A\<close> and \<open>B\<close>, the worker returns the error of \<open>A\<close> and leaves
  \<open>B\<close> in the channel: nothing is at the path of \<open>B\<close>, although the body would have
  finished \<open>B\<close> in the world that \<open>A\<close> left.
\<close>

theorem worker_stops_counterexample:
  "processSpeechGeneration checkSum_empty two_chunks [request_A, request_B] failing_world =
     (Some (Error ''unavailable''), [request_B],
      snd (loopBody checkSum_empty two_chunks request_A failing_world)) \<and>
   files (snd (loopBody checkSum_empty two_chunks request_A failing_world)) path_B = None \<and>
   fst (loopBody checkSum_empty two_chunks request_B
          (snd (loopBody checkSum_empty two_chunks request_A failing_world))) = Finished"
proof -
  from exhausted_A obtain w' where
    r: "loopBody checkSum_empty two_chunks request_A failing_world =
      (Returned (Error ''unavailable''), w')"
    and w': "same_outside failing_world w'" "calls w' = 5"
    by blast
  have "files w' path_B = None"
    using w'(1) by (simp add: same_outside_def failing_world_fields)
  moreover have "processSpeechGeneration checkSum_empty two_chunks [request_A, request_B]
      failing_world = (Some (Error ''unavailable''), [request_B], w')"
    by (simp add: r)
  ultimately show ?thesis
    using unprocessed_B [OF w'] by (simp add: r)
qed

text \<open>
  C2, amended. A terminal item error ends the worker that met it. For the first queued
  item, not skipped, whose earlier sub-requests have left their retry loops (answered or
  not): when a sub-request meets four failures and an error at its fifth call, or when
  all sub-requests have left and the write meets a fault, or the write succeeds and the
  change of the file times meets one, the worker returns that error at once and the other
  requests stay in the channel (in the first case the files are as they were). Whenever
  the body returns an error the worker returns it with the rest of the channel untouched;
  the worker goes on to the next request exactly when it has skipped or finished the item;
  and the body ends as the last equation says: skipped when a file is at one of the two
  paths, else with the error of the synthesis, of the write or of the change of times,
  else finished.
\<close>

theorem worker_returns_at_error:
  "(files w (legacyFilePath req w) = None \<and> files w (filePath cs req w) = None \<and>
    requestsOf G req = pre @ ssr # post \<and> ran (backend w) (calls w) pre runs \<and>
    answers (backend w) (calls w + length (concat runs)) ssr (fails @ [Inl e]) \<and>
    list_all failure fails \<and> length fails = 4 \<longrightarrow>
      (\<exists>w'. processSpeechGeneration cs G (req # workerItems) w = (Some e, workerItems, w') \<and>
            files w' = files w)) \<and>
   (files w (legacyFilePath req w) = None \<and> files w (filePath cs req w) = None \<and>
    ran (backend w) (calls w) (requestsOf G req) runs \<and>
    write_error w (filePath cs req w) = Some e \<longrightarrow>
      (\<exists>w'. processSpeechGeneration cs G (req # workerItems) w = (Some e, workerItems, w'))) \<and>
   (files w (legacyFilePath req w) = None \<and> files w (filePath cs req w) = None \<and>
    ran (backend w) (calls w) (requestsOf G req) runs \<and>
    write_error w (filePath cs req w) = None \<and> chtimes_error w (filePath cs req w) = Some e \<longrightarrow>
      (\<exists>w'. processSpeechGeneration cs G (req # workerItems) w = (Some e, workerItems, w'))) \<and>
   (fst (loopBody cs G req w) = Returned e \<longrightarrow>
      processSpeechGeneration cs G (req # workerItems) w =
        (Some e, workerItems, snd (loopBody cs G req w))) \<and>
   (processSpeechGeneration cs G (req # workerItems) w =
      processSpeechGeneration cs G workerItems (snd (loopBody cs G req w)) \<longleftrightarrow>
    fst (loopBody cs G req w) = Skipped \<or> fst (loopBody cs G req w) = Finished) \<and>
   fst (loopBody cs G req w) =
     (if files w (legacyFilePath req w) \<noteq> None \<or> files w (filePath cs req w) \<noteq> None
      then Skipped
      else case fst (synthesizeAll (requestsOf G req) []
                       (logf (LogStartProcessing (Title (Item req))) w)) of
             Some e \<Rightarrow> Returned e
           | None \<Rightarrow>
               (case write_error w (filePath cs req w) of
                  Some e \<Rightarrow> Returned e
                | None \<Rightarrow>
                    (case chtimes_error w (filePath cs req w) of
                       Some e \<Rightarrow> Returned e
                     | None \<Rightarrow> Finished)))"
proof (intro conjI impI)
  assume a: "files w (legacyFilePath req w) = None \<and> files w (filePath cs req w) = None \<and>
    requestsOf G req = pre @ ssr # post \<and> ran (backend w) (calls w) pre runs \<and>
    answers (backend w) (calls w + length (concat runs)) ssr (fails @ [Inl e]) \<and>
    list_all failure fails \<and> length fails = 4"
  from loopBody_ran_exhausted [of w req cs G pre ssr post runs fails e] a
  obtain w' where "loopBody cs G req w = (Returned e, w')" "same_outside w w'"
    by auto
  then show "\<exists>w'. processSpeechGeneration cs G (req # workerItems) w = (Some e, workerItems, w') \<and>
      files w' = files w"
    by (simp add: same_outside_def)
next
  assume a: "files w (legacyFilePath req w) = None \<and> files w (filePath cs req w) = None \<and>
    ran (backend w) (calls w) (requestsOf G req) runs \<and>
    write_error w (filePath cs req w) = Some e"
  define w1 where "w1 = logf (LogStartProcessing (Title (Item req))) w"
  have "ran (backend w1) (calls w1) (requestsOf G req) runs"
    using a by (simp add: w1_def)
  from synthesizeAll_ran [OF this, of "[]"]
  obtain w3 where syn: "synthesizeAll (requestsOf G req) [] w1 =
      (None, concat (map audio_of runs), w3)"
    by auto
  from a have ns: "files w (legacyFilePath req w) = None" "files w (filePath cs req w) = None"
    and we: "write_error w (filePath cs req w) = Some e"
    by simp_all
  from loopBody_write_fault [OF ns syn [unfolded w1_def] we]
  obtain w' where "loopBody cs G req w = (Returned e, w')"
    by blast
  then show "\<exists>w'. processSpeechGeneration cs G (req # workerItems) w = (Some e, workerItems, w')"
    by simp
next
  assume a: "files w (legacyFilePath req w) = None \<and> files w (filePath cs req w) = None \<and>
    ran (backend w) (calls w) (requestsOf G req) runs \<and>
    write_error w (filePath cs req w) = None \<and> chtimes_error w (filePath cs req w) = Some e"
  then have ns: "files w (legacyFilePath req w) = None" "files w (filePath cs req w) = None"
    and r: "ran (backend w) (calls w) (requestsOf G req) runs"
    and we: "write_error w (filePath cs req w) = None"
    and ce: "chtimes_error w (filePath cs req w) = Some e"
    by simp_all
  from loopBody_ran [OF ns r we] ce
  obtain w' where "loopBody cs G req w = (Returned e, w')"
    by auto
  then show "\<exists>w'. processSpeechGeneration cs G (req # workerItems) w = (Some e, workerItems, w')"
    by simp
next
  assume "fst (loopBody cs G req w) = Returned e"
  then show "processSpeechGeneration cs G (req # workerItems) w =
      (Some e, workerItems, snd (loopBody cs G req w))"
    by (cases "loopBody cs G req w") simp
next
  show "processSpeechGeneration cs G (req # workerItems) w =
      processSpeechGeneration cs G workerItems (snd (loopBody cs G req w)) \<longleftrightarrow>
    fst (loopBody cs G req w) = Skipped \<or> fst (loopBody cs G req w) = Finished"
    by (rule processSpeechGeneration_proceeds)
next
  show "fst (loopBody cs G req w) =
     (if files w (legacyFilePath req w) \<noteq> None \<or> files w (filePath cs req w) \<noteq> None
      then Skipped
      else case fst (synthesizeAll (requestsOf G req) []
                       (logf (LogStartProcessing (Title (Item req))) w)) of
             Some e \<Rightarrow> Returned e
           | None \<Rightarrow>
               (case write_error w (filePath cs req w) of
                  Some e \<Rightarrow> Returned e
                | None \<Rightarrow>
                    (case chtimes_error w (filePath cs req w) of
                       Some e \<Rightarrow> Returned e
                     | None \<Rightarrow> Finished)))"
    by (rule loopBody_outcome)
qed

theorem worker_returns_at_error_witness:
  "fst (processSpeechGeneration checkSum_empty two_chunks [request_A, request_B] failing_world) =
     Some (Error ''unavailable'') \<and>
   fst (snd (processSpeechGeneration checkSum_empty two_chunks [request_A, request_B]
               failing_world)) = [request_B] \<and>
   files (snd (snd (processSpeechGeneration checkSum_empty two_chunks [request_A, request_B]
                  failing_world))) = Map.empty \<and>
   fst (processSpeechGeneration checkSum_empty two_chunks [request_A, request_B] readonly_world) =
     Some (Error ''read-only file system'') \<and>
   fst (snd (processSpeechGeneration checkSum_empty two_chunks [request_A, request_B]
               readonly_world)) = [request_B] \<and>
   fst (processSpeechGeneration checkSum_empty two_chunks [request_A, request_B] frozen_world) =
     Some (Error ''operation not permitted'') \<and>
   fst (snd (processSpeechGeneration checkSum_empty two_chunks [request_A, request_B]
               frozen_world)) = [request_B] \<and>
   fst (loopBody checkSum_empty two_chunks request_A frozen_world) =
     Returned (Error ''operation not permitted'') \<and>
   processSpeechGeneration checkSum_empty two_chunks [request_A, request_B] frozen_world =
     (Some (Error ''operation not permitted''), [request_B],
      snd (loopBody checkSum_empty two_chunks request_A frozen_world)) \<and>
   fst (loopBody checkSum_empty two_chunks request_A example_world) = Finished \<and>
   processSpeechGeneration checkSum_empty two_chunks [request_A, request_B] example_world =
     processSpeechGeneration checkSum_empty two_chunks [request_B]
       (snd (loopBody checkSum_empty two_chunks request_A example_world))"
proof -
  have a2: "answers (backend failing_world) (calls failing_world + length (concat []))
      ''A'' (replicate 4 (Inl (Error ''unavailable'')) @ [Inl (Error ''unavailable'')])"
    by (simp add: failing_world_fields numeral_eq_Suc)
  have h1: "files failing_world (legacyFilePath request_A failing_world) = None \<and>
    files failing_world (filePath checkSum_empty request_A failing_world) = None \<and>
    requestsOf two_chunks request_A = [] @ ''A'' # [''<p>Hello</p>''] \<and>
    ran (backend failing_world) (calls failing_world) [] [] \<and>
    answers (backend failing_world) (calls failing_world + length (concat [])) ''A''
      (replicate 4 (Inl (Error ''unavailable'')) @ [Inl (Error ''unavailable'')]) \<and>
    list_all failure (replicate 4 (Inl (Error ''unavailable''))) \<and>
    length (replicate 4 (Inl (Error ''unavailable'') :: response)) = 4"
    using a2 failures_4 by (simp add: failing_world_fields requestsOf_A)
  from worker_returns_at_error [where w = failing_world and ssr = "''A''"
      and fails = "replicate 4 (Inl (Error ''unavailable''))" and e = "Error ''unavailable''"
      and req = request_A and cs = checkSum_empty and G = two_chunks and runs = "[]"
      and pre = "[]" and post = "[''<p>Hello</p>'']" and workerItems = "[request_B]",
      THEN conjunct1, THEN mp, OF h1]
  obtain w' where "processSpeechGeneration checkSum_empty two_chunks [request_A, request_B]
      failing_world = (Some (Error ''unavailable''), [request_B], w')" "files w' = files failing_world"
    by blast
  then have one: "fst (processSpeechGeneration checkSum_empty two_chunks [request_A, request_B]
      failing_world) = Some (Error ''unavailable'') \<and>
    fst (snd (processSpeechGeneration checkSum_empty two_chunks [request_A, request_B]
               failing_world)) = [request_B] \<and>
    files (snd (snd (processSpeechGeneration checkSum_empty two_chunks [request_A, request_B]
                  failing_world))) = Map.empty"
    by (simp add: failing_world_fields)
  have h2: "files readonly_world (legacyFilePath request_A readonly_world) = None \<and>
    files readonly_world (filePath checkSum_empty request_A readonly_world) = None \<and>
    ran (backend readonly_world) (calls readonly_world) (requestsOf two_chunks request_A)
      [replicate 4 (Inl (Error ''unavailable'')) @ [Inr (bytes ''A'')],
       [Inr (bytes ''<p>Hello</p>'')]] \<and>
    write_error readonly_world (filePath checkSum_empty request_A readonly_world) =
      Some (Error ''read-only file system'')"
    using ran_A by (simp add: other_world_fields requestsOf_A)
  from worker_returns_at_error [where w = readonly_world and req = request_A
      and cs = checkSum_empty and G = two_chunks and workerItems = "[request_B]"
      and e = "Error ''read-only file system''",
      THEN conjunct2, THEN conjunct1, THEN mp, OF h2]
  obtain w'' where "processSpeechGeneration checkSum_empty two_chunks [request_A, request_B]
      readonly_world = (Some (Error ''read-only file system''), [request_B], w'')"
    by blast
  then have two: "fst (processSpeechGeneration checkSum_empty two_chunks [request_A, request_B]
      readonly_world) = Some (Error ''read-only file system'') \<and>
    fst (snd (processSpeechGeneration checkSum_empty two_chunks [request_A, request_B]
               readonly_world)) = [request_B]"
    by simp
  have h3: "files frozen_world (legacyFilePath request_A frozen_world) = None \<and>
    files frozen_world (filePath checkSum_empty request_A frozen_world) = None \<and>
    ran (backend frozen_world) (calls frozen_world) (requestsOf two_chunks request_A)
      [replicate 4 (Inl (Error ''unavailable'')) @ [Inr (bytes ''A'')],
       [Inr (bytes ''<p>Hello</p>'')]] \<and>
    write_error frozen_world (filePath checkSum_empty request_A frozen_world) = None \<and>
    chtimes_error frozen_world (filePath checkSum_empty request_A frozen_world) =
      Some (Error ''operation not permitted'')"
    using ran_A by (simp add: other_world_fields requestsOf_A)
  note frozen = worker_returns_at_error [where w = frozen_world and req = request_A
      and cs = checkSum_empty and G = two_chunks and workerItems = "[request_B]"
      and e = "Error ''operation not permitted''"]
  from frozen [THEN conjunct2, THEN conjunct2, THEN conjunct1, THEN mp, OF h3]
  obtain w3 where r3: "processSpeechGeneration checkSum_empty two_chunks [request_A, request_B]
      frozen_world = (Some (Error ''operation not permitted''), [request_B], w3)"
    by blast
  then have three: "fst (processSpeechGeneration checkSum_empty two_chunks [request_A, request_B]
      frozen_world) = Some (Error ''operation not permitted'') \<and>
    fst (snd (processSpeechGeneration checkSum_empty two_chunks [request_A, request_B]
               frozen_world)) = [request_B]"
    by simp
  from h3 have p3: "files frozen_world (legacyFilePath request_A frozen_world) = None"
    "files frozen_world (filePath checkSum_empty request_A frozen_world) = None"
    "ran (backend frozen_world) (calls frozen_world) (requestsOf two_chunks request_A)
      [replicate 4 (Inl (Error ''unavailable'')) @ [Inr (bytes ''A'')],
       [Inr (bytes ''<p>Hello</p>'')]]"
    "write_error frozen_world (filePath checkSum_empty request_A frozen_world) = None"
    and c3: "chtimes_error frozen_world (filePath checkSum_empty request_A frozen_world) =
      Some (Error ''operation not permitted'')"
    by simp_all
  from loopBody_ran [OF p3] c3
  have out: "fst (loopBody checkSum_empty two_chunks request_A frozen_world) =
      Returned (Error ''operation not permitted'')"
    by auto
  from frozen [THEN conjunct2, THEN conjunct2, THEN conjunct2, THEN conjunct1, THEN mp, OF out]
  have four: "processSpeechGeneration checkSum_empty two_chunks [request_A, request_B] frozen_world =
     (Some (Error ''operation not permitted''), [request_B],
      snd (loopBody checkSum_empty two_chunks request_A frozen_world))" .
  from finished_A have fin: "fst (loopBody checkSum_empty two_chunks request_A example_world) = Finished"
    by auto
  then have h5: "fst (loopBody checkSum_empty two_chunks request_A example_world) = Skipped \<or>
      fst (loopBody checkSum_empty two_chunks request_A example_world) = Finished"
    by simp
  from worker_returns_at_error [where w = example_world and req = request_A
      and cs = checkSum_empty and G = two_chunks and workerItems = "[request_B]",
      THEN conjunct2, THEN conjunct2, THEN conjunct2, THEN conjunct2, THEN conjunct1,
      THEN iffD2, OF h5]
  have five: "processSpeechGeneration checkSum_empty two_chunks [request_A, request_B] example_world =
     processSpeechGeneration checkSum_empty two_chunks [request_B]
       (snd (loopBody checkSum_empty two_chunks request_A example_world))" .
  from one two three out four fin five show ?thesis by blast
qed

text \<open>
  C3, on the code. \<open>md5.New().Sum(title)\<close> appends the checksum of nothing to the title
  bytes, so the identifier is the hexadecimal form of the title followed by that of a
  constant, cut at 50 characters, whatever the checksum function is: two titles with the
  same first 25 bytes get the same identifier, in which no checksum takes part, and a
  title of one byte gets an identifier of 34 characters, an empty one of 32. The file is
  the identifier with \<open>.mp3\<close> (remote) or \<open>.wav\<close> (local) under the directory.
\<close>

theorem identifier_is_title_prefix:
  "hashString checkSum ''Weekly digest of the news, part 1'' =
     ''5765656b6c7920646967657374206f6620746865206e657773'' \<and>
   hashString checkSum ''Weekly digest of the news, part 2'' =
     ''5765656b6c7920646967657374206f6620746865206e657773'' \<and>
   EncodeToString (bytes ''Weekly digest of the news'') =
     ''5765656b6c7920646967657374206f6620746865206e657773'' \<and>
   hashString checkSum_empty ''A'' = ''41d41d8cd98f00b204e9800998ecf8427e'' \<and>
   length (hashString checkSum_empty ''A'') = 34 \<and>
   hashString checkSum_empty [] = ''d41d8cd98f00b204e9800998ecf8427e'' \<and>
   length (hashString checkSum_empty []) = 32 \<and>
   filePath checkSum_empty request_A example_world =
     ''/out/41d41d8cd98f00b204e9800998ecf8427e.mp3'' \<and>
   filePathOffline checkSum_empty request_A example_world =
     ''/out/41d41d8cd98f00b204e9800998ecf8427e.wav''"
proof -
  have e: "EncodeToString (bytes ''Weekly digest of the news'') =
      ''5765656b6c7920646967657374206f6620746865206e657773''"
    by (simp add: bytes_def hextable_def)
  have 1: "hashString checkSum ''Weekly digest of the news, part 1'' =
      EncodeToString (bytes (take 25 ''Weekly digest of the news, part 1''))"
    by (rule hashString_long) simp
  have 2: "hashString checkSum ''Weekly digest of the news, part 2'' =
      EncodeToString (bytes (take 25 ''Weekly digest of the news, part 2''))"
    by (rule hashString_long) simp
  have 3: "hashString checkSum_empty [] = ''d41d8cd98f00b204e9800998ecf8427e''"
    by (simp add: hashString_def md5_Sum_def md5_New_def checkSum_empty_def md5_of_nothing_def
      bytes_def hextable_def)
  have 4: "filePath checkSum_empty request_A example_world =
      ''/out/41d41d8cd98f00b204e9800998ecf8427e.mp3''"
    "filePathOffline checkSum_empty request_A example_world =
      ''/out/41d41d8cd98f00b204e9800998ecf8427e.wav''"
    by (simp_all add: filePath_def filePathOffline_def request_A_def requestFor_def item_A_def
        hashString_A Abs_def Clean_def IsAbs_def cleanStep_def)
  from 1 2 show ?thesis by (simp add: e hashString_A 3 4)
qed

text \<open>
  C4, on the code. The legacy path is built from the title alone and made absolute
  against the working directory, not the output directory: with the output directory
  \<open>/out\<close>, the working directory \<open>/srv\<close> and the legacy artifact \<open>/out/A.mp3\<close> on disk,
  the check looks at \<open>/srv/A.mp3\<close> and at the hashed path, finds neither, and does not
  skip.
\<close>

theorem legacy_artifact_not_found:
  "Directory request_A = ''/out'' \<and>
   speechSynthesizeWorker_filepath request_A legacy_world = ''/out/A.mp3'' \<and>
   map_option content (files legacy_world ''/out/A.mp3'') = Some (bytes ''old audio'') \<and>
   legacyFilePath request_A legacy_world = ''/srv/A.mp3'' \<and>
   filePath checkSum_empty request_A legacy_world = path_A \<and>
   shouldSkip checkSum_empty request_A legacy_world = (False, legacy_world)"
proof -
  have c: "cwd legacy_world = ''/srv''"
    by (simp add: legacy_world_def example_world_fields)
  have f: "files legacy_world ''/srv/A.mp3'' = None" "files legacy_world path_A = None"
    by (simp_all add: legacy_world_def path_A_def)
  have o: "speechSynthesizeWorker_filepath request_A legacy_world = ''/out/A.mp3''"
    by (simp add: speechSynthesizeWorker_filepath_def request_A_def requestFor_def item_A_def
        ReplaceAll_def Abs_def Clean_def IsAbs_def cleanStep_def)
  show ?thesis
    using f
    by (simp add: shouldSkip_eq legacyFilePath_A [OF c] filePath_A [OF c] o)
      (simp add: legacy_world_def request_A_def requestFor_def)
qed

text \<open>
  C5. For an item that is not skipped, whose sub-requests are each answered within five
  calls with the audio \<open>B1, ..., Bn\<close> (in the script, after the failures of each), and
  whose write meets no fault: the synthesis loop ends with \<open>B1 @ ... @ Bn\<close> accumulated,
  having made all its calls and touched neither the files nor the record of writes; the
  body then makes exactly one write, of these bytes at the item's path, and no call after
  it.
\<close>

theorem chunk_concatenation:
  assumes "files w (legacyFilePath req w) = None" and "files w (filePath cs req w) = None"
    and "scripted (backend w) (calls w) (requestsOf G req) script"
    and "write_error w (filePath cs req w) = None"
  shows "\<exists>out w' w3.
           synthesizeAll (requestsOf G req) [] (logf (LogStartProcessing (Title (Item req))) w) =
             (None, concat (map snd script), w3) \<and>
           files w3 = files w \<and> writes w3 = writes w \<and> calls w3 = calls w + attempts script \<and>
           loopBody cs G req w = (out, w') \<and>
           writes w' = writes w @ [(filePath cs req w, concat (map snd script))] \<and>
           map_option content (files w' (filePath cs req w)) = Some (concat (map snd script)) \<and>
           calls w' = calls w3"
proof -
  define w1 where "w1 = logf (LogStartProcessing (Title (Item req))) w"
  have "scripted (backend w1) (calls w1) (requestsOf G req) script"
    using assms(3) by (simp add: w1_def)
  from synthesizeAll_script [OF this, of "[]"]
  obtain w3 where syn: "synthesizeAll (requestsOf G req) [] w1 = (None, concat (map snd script), w3)"
    and w3: "same_outside w1 w3" "calls w3 = calls w1 + attempts script"
    by auto
  from loopBody_written [OF assms(1,2) syn [unfolded w1_def] assms(4)]
  obtain out w' where "loopBody cs G req w = (out, w')"
    "writes w' = writes w @ [(filePath cs req w, concat (map snd script))]"
    "calls w' = calls w3"
    "map_option content (files w' (filePath cs req w)) = Some (concat (map snd script))"
    by auto
  with syn w3 show ?thesis by (auto simp add: w1_def same_outside_def)
qed

theorem chunk_concatenation_witness:
  "writes (snd (loopBody checkSum_empty two_chunks request_A example_world)) =
     [(path_A, bytes ''A'' @ bytes ''<p>Hello</p>'')] \<and>
   map_option content
     (files (snd (loopBody checkSum_empty two_chunks request_A example_world)) path_A) =
     Some (bytes ''A'' @ bytes ''<p>Hello</p>'')"
proof -
  have p: "filePath checkSum_empty request_A example_world = path_A"
    by (simp add: filePath_A example_world_fields)
  from chunk_concatenation [of example_world request_A checkSum_empty two_chunks script_A,
      OF _ _ scripted_A]
  show ?thesis
    unfolding p by (auto simp add: example_world_fields script_A_def)
qed




text \<open>
  C7, as stated, fails. In \<open>gap_feed\<close> the cap leaves all three items to consider, the
  first and the third are \<open>A\<close>, one hour old in a window of 48, and the second has no
  publish time: the producer sends the request for the first, panics at the second and
  never sends the one for the third. And the age is compared as the \<open>float64\<close> that
  \<open>Duration.Hours\<close> returns: an age of 4096 hours and a nanosecond has the value 4096, and
  passes a window of 4096 hours.
\<close>

theorem producer_enqueues_counterexample:
  "considered example_config gap_feed = [item_A, item_undated, item_A] \<and>
   withinWindow example_config (clock example_world) (2, item_A) \<and>
   fst (CreateSpeechFromItems example_config [] gap_feed ''/out'' example_world) =
     Some NilPointerDereference \<and>
   fst (snd (CreateSpeechFromItems example_config [] gap_feed ''/out'' example_world)) =
     [requestFor example_config ''en-US'' ''/out'' item_A] \<and>
   4096 < real_of_int 14745600000000001 / 3600000000000 \<and>
   Hours (Sub 14745600000000001 0) = 4096 \<and>
   fst (isInRange (Some 0) 4096 aged_world) = Inr True"
proof -
  have c: "considered example_config gap_feed = [item_A, item_undated, item_A]"
    by (simp add: considered_def example_config_def gap_feed_def)
  have h2: "Hours (Sub 3600000000000002 3596400000000000) \<le> 48"
    by (simp add: Hours_def float64_eval)
  have w: "withinWindow example_config (clock example_world) (2, item_A)"
    by (simp add: withinWindow_def item_A_def example_world_def example_config_def h2)
  have l: "feedLanguage ''en-US'' = ''en-US''"
    by (simp add: feedLanguage_def ToLower_def toLower_def)
  have n: "\<And>since v. isInRange None since (v :: string world) = (Inl NilPointerDereference, v)"
    by (simp add: isInRange_def)
  have r: "fst (CreateSpeechFromItems example_config [] gap_feed ''/out'' example_world) =
      Some NilPointerDereference"
    "fst (snd (CreateSpeechFromItems example_config [] gap_feed ''/out'' example_world)) =
      [requestFor example_config ''en-US'' ''/out'' item_A]"
    by (simp_all add: CreateSpeechFromItems_eq considered_def gap_feed_def example_config_def
        item_A_def item_undated_def isInRange_Some n Hours_A example_world_def
        logf_def requestFor_def l)
  have f: "Hours (Sub 14745600000000001 0) = 4096"
    by (simp add: Hours_def float64_eval)
  have i: "fst (isInRange (Some 0) 4096 aged_world) = Inr True"
    by (simp add: isInRange_Some f aged_world_def)
  have g: "(4096 :: real) < real_of_int 14745600000000001 / 3600000000000"
    by simp
  from c w r g f i show ?thesis by blast
qed

text \<open>
  C7, amended. For a feed whose per-feed cap is not negative and whose considered items
  all carry a publish time, the producer looks at exactly the first
  \<open>min (len items) MaxItemPerFeed\<close> items in feed order, reads the clock once for each,
  and appends to the channel exactly one request for each of them whose age at that
  reading, as the \<open>float64\<close> number of hours that \<open>Duration.Hours\<close> gives for the difference
  that \<open>Time.Sub\<close> gives, is at most \<open>ItemSince\<close>, in feed order, and nothing else.
\<close>

theorem producer_enqueues:
  assumes "0 \<le> MaxItemPerFeed config"
    and "\<forall>item\<in>set (considered config feed). PublishedParsed item \<noteq> None"
  shows "\<exists>w'. CreateSpeechFromItems config channel feed directory w =
           (None,
            channel @ map (\<lambda>(k, item). requestFor config (feedLanguage (Language feed)) directory item)
                        (filter (withinWindow config (clock w))
                           (enumerate (reads w) (considered config feed))),
            w') \<and>
         reads w' = reads w + length (considered config feed)"
proof -
  define w1 where "w1 = logf (LogFeedTitle (Feed_Title feed)) w"
  have w1: "clock w1 = clock w" "reads w1 = reads w" by (simp_all add: w1_def)
  have bound: "0 + int (length (considered config feed)) \<le>
      min (int (length (Items feed))) (MaxItemPerFeed config)"
    using length_considered [OF assms(1), of feed] by simp
  from enqueueItems_total [OF assms(2) bound, of config "feedLanguage (Language feed)" directory channel w1]
  obtain w' where "enqueueItems config (feedLanguage (Language feed)) directory
      (min (int (length (Items feed))) (MaxItemPerFeed config)) (considered config feed) 0 channel w1 =
    (None,
     channel @ map (\<lambda>(k, item). requestFor config (feedLanguage (Language feed)) directory item)
                 (filter (withinWindow config (clock w))
                    (enumerate (reads w) (considered config feed))),
     w')" "reads w' = reads w + length (considered config feed)"
    unfolding w1 by blast
  then show ?thesis using assms(1) by (simp add: CreateSpeechFromItems_eq w1_def [symmetric])
qed

theorem producer_enqueues_witness:
  "0 \<le> MaxItemPerFeed example_config \<and>
   map PublishedParsed (considered example_config example_feed) =
     [Some 3596400000000000, Some 3340800000000000] \<and>
   fst (snd (CreateSpeechFromItems example_config [] example_feed ''/out'' example_world)) =
     [requestFor example_config ''cmn-CN'' ''/out'' item_A]"
proof -
  have c: "considered example_config example_feed = [item_A, item_B]"
    by (simp add: considered_def example_config_def example_feed_def)
  have h1: "0 \<le> MaxItemPerFeed example_config" by (simp add: example_config_def)
  have h2: "\<forall>item\<in>set (considered example_config example_feed). PublishedParsed item \<noteq> None"
    by (simp add: c item_A_def item_B_def)
  have l: "feedLanguage (Language example_feed) = ''cmn-CN''"
    by (simp add: example_feed_def feedLanguage_def ToLower_def toLower_def)
  have f: "filter (withinWindow example_config (clock example_world))
      (enumerate (reads example_world) [item_A, item_B]) = [(0, item_A)]"
    by (simp add: withinWindow_def Hours_A Hours_B example_world_def example_config_def
        item_A_def item_B_def)
  from producer_enqueues [OF h1 h2, of "[]" "''/out''" example_world]
  have "fst (snd (CreateSpeechFromItems example_config [] example_feed ''/out'' example_world)) =
      [requestFor example_config ''cmn-CN'' ''/out'' item_A]"
    unfolding c f l by auto
  with h1 show ?thesis by (simp add: c item_A_def item_B_def)
qed

text \<open>
  C8. The language code computed from a feed's tag is \<open>cmn-CN\<close> when the tag contains a
  \<open>z\<close> or \<open>Z\<close> directly followed by an \<open>h\<close> or \<open>H\<close>, and the tag itself otherwise; every
  request that the producer appends to the channel carries that code.
\<close>

theorem language_normalised:
  "feedLanguage lang =
     (if \<exists>u a b v. lang = u @ a # b # v \<and> a \<in> {CHR ''z'', CHR ''Z''} \<and> b \<in> {CHR ''h'', CHR ''H''}
      then ''cmn-CN'' else lang) \<and>
   (\<exists>new. fst (snd (CreateSpeechFromItems config channel feed directory w)) = channel @ new \<and>
      (\<forall>r\<in>set new. LanguageCode r = feedLanguage (Language feed)))"
proof
  show "feedLanguage lang =
     (if \<exists>u a b v. lang = u @ a # b # v \<and> a \<in> {CHR ''z'', CHR ''Z''} \<and> b \<in> {CHR ''h'', CHR ''H''}
      then ''cmn-CN'' else lang)"
    unfolding feedLanguage_def Contains_ToLower_zh by simp
  show "\<exists>new. fst (snd (CreateSpeechFromItems config channel feed directory w)) = channel @ new \<and>
      (\<forall>r\<in>set new. LanguageCode r = feedLanguage (Language feed))"
  proof (cases "MaxItemPerFeed config < 0")
    case True
    then show ?thesis by (simp add: CreateSpeechFromItems_eq)
  next
    case False
    with enqueueItems_language [of config "feedLanguage (Language feed)" directory
        "min (int (length (Items feed))) (MaxItemPerFeed config)" "considered config feed" 0 channel
        "logf (LogFeedTitle (Feed_Title feed)) w"]
    show ?thesis by (simp add: CreateSpeechFromItems_eq)
  qed
qed

theorem language_normalised_witness:
  "feedLanguage ''zh-TW'' = ''cmn-CN'' \<and> feedLanguage ''en-ZH'' = ''cmn-CN'' \<and>
   feedLanguage ''en-US'' = ''en-US'' \<and>
   map LanguageCode
     (fst (snd (CreateSpeechFromItems example_config [] example_feed ''/out'' example_world))) =
     [''cmn-CN'']"
proof -
  have 1: "\<exists>u a b v. ''zh-TW'' = u @ a # b # v \<and> a \<in> {CHR ''z'', CHR ''Z''} \<and>
      b \<in> {CHR ''h'', CHR ''H''}"
    by (intro exI [of _ "[]"] exI [of _ "CHR ''z''"] exI [of _ "CHR ''h''"] exI [of _ "''-TW''"]) simp
  have 2: "\<exists>u a b v. ''en-ZH'' = u @ a # b # v \<and> a \<in> {CHR ''z'', CHR ''Z''} \<and>
      b \<in> {CHR ''h'', CHR ''H''}"
    by (intro exI [of _ "''en-''"] exI [of _ "CHR ''Z''"] exI [of _ "CHR ''H''"] exI [of _ "[]"]) simp
  have 3: "\<not> (\<exists>u a b v. ''en-US'' = u @ a # b # v \<and> a \<in> {CHR ''z'', CHR ''Z''} \<and>
      b \<in> {CHR ''h'', CHR ''H''})"
    unfolding Contains_ToLower_zh [symmetric] by (simp add: ToLower_def toLower_def)
  have a: "feedLanguage ''zh-TW'' = ''cmn-CN''"
    using language_normalised [of "''zh-TW''", THEN conjunct1] 1 by simp
  have b: "feedLanguage ''en-ZH'' = ''cmn-CN''"
    using language_normalised [of "''en-ZH''", THEN conjunct1] 2 by simp
  have c: "feedLanguage ''en-US'' = ''en-US''"
    using language_normalised [of "''en-US''", THEN conjunct1] 3 by simp
  have l: "Language example_feed = ''zh-TW''" by (simp add: example_feed_def)
  from language_normalised [of "''zh-TW''" example_config "[]" example_feed "''/out''" example_world,
      THEN conjunct2]
  obtain new where n: "fst (snd (CreateSpeechFromItems example_config [] example_feed ''/out''
      example_world)) = new" "\<forall>r\<in>set new. LanguageCode r = ''cmn-CN''"
    unfolding l a by auto
  from n have "map LanguageCode
      (fst (snd (CreateSpeechFromItems example_config [] example_feed ''/out'' example_world))) =
      [''cmn-CN'']"
    unfolding example_channel by auto
  with a b c show ?thesis by simp
qed

text \<open>
  C9, on the code. The file is created with the permission bits \<open>0755\<close> (493) less the
  umask: with the usual umask \<open>022\<close> (18) the written file has mode \<open>0755\<close>, all three
  execute bits (\<open>0111\<close>, 73) set.
\<close>

theorem written_file_is_executable:
  "umask example_world = 18 \<and>
   map_option mode
     (files (snd (loopBody checkSum_empty two_chunks request_A example_world)) path_A) =
     Some 493 \<and>
   map_option (\<lambda>f. mode f AND 73)
     (files (snd (loopBody checkSum_empty two_chunks request_A example_world)) path_A) =
     Some 73"
proof -
  from finished_A obtain w' where
    "loopBody checkSum_empty two_chunks request_A example_world = (Finished, w')"
    "files w' = [path_A \<mapsto>
          \<lparr>content = bytes ''A<p>Hello</p>'', mode = 493, mtime = 3596400000000000,
           atime = 3596400000000000, title_tag = Some ''A''\<rparr>]"
    by blast
  then show ?thesis by (simp add: example_world_fields)
qed

text \<open>
  C10. The producer returns without a panic exactly when the cap is not negative and
  every one of the first \<open>min (len items) MaxItemPerFeed\<close> items has a publish time;
  with a cap that is not negative, a considered item without one makes it panic on the
  nil pointer.
\<close>

theorem producer_total_iff:
  "(fst (CreateSpeechFromItems config channel feed directory w) = None \<longleftrightarrow>
      0 \<le> MaxItemPerFeed config \<and>
      (\<forall>item\<in>set (considered config feed). PublishedParsed item \<noteq> None)) \<and>
   (0 \<le> MaxItemPerFeed config \<and>
      (\<exists>item\<in>set (considered config feed). PublishedParsed item = None) \<longrightarrow>
    fst (CreateSpeechFromItems config channel feed directory w) = Some NilPointerDereference)"
proof -
  have nil: "fst (CreateSpeechFromItems config channel feed directory w) = Some NilPointerDereference"
    if "0 \<le> MaxItemPerFeed config" "\<exists>item\<in>set (considered config feed). PublishedParsed item = None"
    using that enqueueItems_nil [OF that(2)] by (simp add: CreateSpeechFromItems_eq)
  have ok: "fst (CreateSpeechFromItems config channel feed directory w) = None"
    if "0 \<le> MaxItemPerFeed config" "\<forall>item\<in>set (considered config feed). PublishedParsed item \<noteq> None"
  proof -
    have bound: "0 + int (length (considered config feed)) \<le>
        min (int (length (Items feed))) (MaxItemPerFeed config)"
      using length_considered [OF that(1), of feed] by simp
    from enqueueItems_total [OF that(2) bound, of config "feedLanguage (Language feed)" directory
        channel "logf (LogFeedTitle (Feed_Title feed)) w"]
    obtain w' r where "enqueueItems config (feedLanguage (Language feed)) directory
        (min (int (length (Items feed))) (MaxItemPerFeed config)) (considered config feed) 0 channel
        (logf (LogFeedTitle (Feed_Title feed)) w) = (None, r, w')"
      by blast
    then show ?thesis using that(1) by (simp add: CreateSpeechFromItems_eq)
  qed
  have neg: "fst (CreateSpeechFromItems config channel feed directory w) = Some SliceBoundsOutOfRange"
    if "MaxItemPerFeed config < 0"
    using that by (simp add: CreateSpeechFromItems_eq)
  show ?thesis
  proof (intro conjI iffI impI)
    assume none: "fst (CreateSpeechFromItems config channel feed directory w) = None"
    show "0 \<le> MaxItemPerFeed config"
    proof (rule ccontr)
      assume "\<not> 0 \<le> MaxItemPerFeed config"
      then have "MaxItemPerFeed config < 0" by simp
      from neg [OF this] none show False by simp
    qed
    then show "\<forall>item\<in>set (considered config feed). PublishedParsed item \<noteq> None"
      using nil none by fastforce
  next
    assume "0 \<le> MaxItemPerFeed config \<and>
      (\<forall>item\<in>set (considered config feed). PublishedParsed item \<noteq> None)"
    then show "fst (CreateSpeechFromItems config channel feed directory w) = None"
      using ok by blast
  next
    assume "0 \<le> MaxItemPerFeed config \<and>
      (\<exists>item\<in>set (considered config feed). PublishedParsed item = None)"
    then show "fst (CreateSpeechFromItems config channel feed directory w) = Some NilPointerDereference"
      using nil by blast
  qed
qed

theorem producer_total_iff_witness:
  "0 \<le> MaxItemPerFeed example_config \<and>
   map PublishedParsed (considered example_config undated_feed) = [Some 3596400000000000, None] \<and>
   fst (CreateSpeechFromItems example_config [] undated_feed ''/out'' example_world) =
     Some NilPointerDereference \<and>
   map PublishedParsed (considered example_config example_feed) =
     [Some 3596400000000000, Some 3340800000000000] \<and>
   fst (CreateSpeechFromItems example_config [] example_feed ''/out'' example_world) = None"
proof -
  have h1: "0 \<le> MaxItemPerFeed example_config" by (simp add: example_config_def)
  have h2: "\<exists>item\<in>set (considered example_config undated_feed). PublishedParsed item = None"
    by (simp add: considered_def example_config_def undated_feed_def item_undated_def)
  have h3: "\<forall>item\<in>set (considered example_config example_feed). PublishedParsed item \<noteq> None"
    by (simp add: considered_def example_config_def example_feed_def item_A_def item_B_def)
  from producer_total_iff [of example_config "[]" undated_feed "''/out''" example_world] h1 h2
  have a: "fst (CreateSpeechFromItems example_config [] undated_feed ''/out'' example_world) =
      Some NilPointerDereference"
    by blast
  from producer_total_iff [of example_config "[]" example_feed "''/out''" example_world] h1 h3
  have b: "fst (CreateSpeechFromItems example_config [] example_feed ''/out'' example_world) = None"
    by blast
  have c: "considered example_config undated_feed = [item_A, item_undated]"
    "considered example_config example_feed = [item_A, item_B]"
    by (simp_all add: considered_def example_config_def undated_feed_def example_feed_def)
  from h1 a b show ?thesis by (simp add: c item_A_def item_B_def item_undated_def)
qed

end
